theory Spec2Isabelle
  imports Main "HOL-Library.AList"
begin

section \<open>Values, addresses and Python dictionaries\<close>

text \<open>
  Modelled from the spec: the module \<^verbatim>\<open>starkware.cairo.lang.vm.relocatable\<close> is imported by
  \<^verbatim>\<open>virtual_machine_base.py\<close> but its source is not part of the files at hand. A
  \<^verbatim>\<open>MaybeRelocatable\<close> is either a Python integer or a relocatable address, a pair of a
  non-negative segment index and an integer offset. A relocatable is never equal to an integer,
  and it may be offset by an integer.
\<close>

datatype maybe_relocatable =
    IntValue int
  | RelocatableValue (segment_index: nat) (offset: int)

fun is_relocatable :: "maybe_relocatable \<Rightarrow> bool" where
  "is_relocatable (RelocatableValue s off) = True"
| "is_relocatable (IntValue n) = False"

text \<open>\<^verbatim>\<open>x - n\<close> and \<^verbatim>\<open>x + n\<close> for an integer \<^verbatim>\<open>n\<close>: on the offset of a relocatable, on the
  integer itself otherwise.\<close>

fun mr_sub :: "maybe_relocatable \<Rightarrow> int \<Rightarrow> maybe_relocatable" where
  "mr_sub (IntValue m) n = IntValue (m - n)"
| "mr_sub (RelocatableValue s off) n = RelocatableValue s (off - n)"

text \<open>
  A Python \<^verbatim>\<open>dict\<close> keeps its keys in insertion order, and several loops of the source
  iterate over one: it is an association list with distinct keys. \<^verbatim>\<open>d[k] = v\<close> is
  \<^const>\<open>AList.update\<close> (an existing key keeps its place, a new key goes to the end),
  \<^verbatim>\<open>d.get(k)\<close> is \<^const>\<open>map_of\<close>.
\<close>

type_synonym ('k, 'v) dict = "('k \<times> 'v) list"

definition dict_get_default :: "('k, 'v) dict \<Rightarrow> 'k \<Rightarrow> 'v \<Rightarrow> 'v" where
  "dict_get_default d k dflt = (case map_of d k of None \<Rightarrow> dflt | Some v \<Rightarrow> v)"

text \<open>\<^verbatim>\<open>d.update(e)\<close>, also \<^verbatim>\<open>{**d, **e}\<close> on a copy: the items of \<^verbatim>\<open>e\<close> are stored one by
  one, in the order of \<^verbatim>\<open>e\<close>.\<close>

definition dict_update :: "('k, 'v) dict \<Rightarrow> ('k, 'v) dict \<Rightarrow> ('k, 'v) dict" where
  "dict_update d e = fold (\<lambda>(k, v). AList.update k v) e d"

text \<open>\<^verbatim>\<open>d.copy()\<close>: a new dictionary that receives the items of \<^verbatim>\<open>d\<close>.\<close>

definition dict_copy :: "('k, 'v) dict \<Rightarrow> ('k, 'v) dict" where
  "dict_copy d = dict_update [] d"

section \<open>Errors\<close>

text \<open>Every exception the modelled code raises is a value; \<^verbatim>\<open>HostException\<close> stands for an
  exception raised inside a callable the embedding does not look into (a deduction rule, a
  validation rule, the instruction decoder, the code of a hint); \<^verbatim>\<open>VmException\<close> wraps an
  exception with the pc and the index of the hint it was raised at.\<close>

datatype error =
    AssertionError string
  | KeyError string
  | NameError string
  | IndexError string
  | ValueError string
  | NotImplementedError string
  | UnknownMemoryError maybe_relocatable
  | InconsistentMemoryError maybe_relocatable maybe_relocatable maybe_relocatable
  | InconsistentAutoDeductionError maybe_relocatable maybe_relocatable maybe_relocatable
  | VmExceptionBase string
  | VmException maybe_relocatable "nat option" error
  | HostException string

section \<open>Memory\<close>

text \<open>
  Modelled from the spec: \<^verbatim>\<open>MemoryDict\<close> (\<^verbatim>\<open>starkware.cairo.lang.vm.memory_dict\<close>) is
  imported but its source is absent. It is a mapping from addresses to values;
  \<^verbatim>\<open>get\<close> of an unwritten address returns none, indexing an unwritten address fails, and a
  write either inserts or rewrites the same value, a different value for a written
  address being the error \<^emph>\<open>InconsistentMemory\<close>.
\<close>

type_synonym memory_dict = "(maybe_relocatable, maybe_relocatable) dict"

definition memory_get :: "memory_dict \<Rightarrow> maybe_relocatable \<Rightarrow> maybe_relocatable option" where
  "memory_get m addr = map_of m addr"

definition memory_getitem :: "memory_dict \<Rightarrow> maybe_relocatable \<Rightarrow> error + maybe_relocatable" where
  "memory_getitem m addr =
     (case map_of m addr of None \<Rightarrow> Inl (UnknownMemoryError addr) | Some v \<Rightarrow> Inr v)"

definition memory_setitem ::
  "memory_dict \<Rightarrow> maybe_relocatable \<Rightarrow> maybe_relocatable \<Rightarrow> error + memory_dict" where
  "memory_setitem m addr v =
     (case map_of m addr of
        None \<Rightarrow> Inr (m @ [(addr, v)])
      | Some old \<Rightarrow> if old = v then Inr m else Inl (InconsistentMemoryError addr old v))"

section \<open>Storage\<close>

text \<open>
  \<^verbatim>\<open>storage.py\<close> and \<^verbatim>\<open>dict_storage.py\<close>. Keys and values are byte strings. The two
  concrete storages of the repository are \<^verbatim>\<open>DictStorage\<close>, a dictionary, and
  \<^verbatim>\<open>CachedStorage\<close>, a storage behind a cache. The methods are coroutines; each is
  modelled by the result it produces when awaited, together with the storage
  it leaves behind.
\<close>

type_synonym bytes = string

datatype storage =
    DictStorage (db: "(bytes, bytes) dict")
  | CachedStorage (storage: storage) (cache: "(bytes, bytes) dict") (max_size: nat)
      (metric_active: bool)

fun class_name :: "storage \<Rightarrow> string" where
  "class_name (DictStorage d) = ''DictStorage''"
| "class_name (CachedStorage s c n a) = ''CachedStorage''"

text \<open>\<^verbatim>\<open>DictStorage.set_value\<close>, \<^verbatim>\<open>get_value\<close> and \<^verbatim>\<open>del_value\<close>; the last one swallows
  the \<^verbatim>\<open>KeyError\<close> of a missing key.\<close>

definition dict_set_value :: "(bytes, bytes) dict \<Rightarrow> bytes \<Rightarrow> bytes \<Rightarrow> (bytes, bytes) dict" where
  "dict_set_value d key val = AList.update key val d"

definition dict_get_value :: "(bytes, bytes) dict \<Rightarrow> bytes \<Rightarrow> bytes option" where
  "dict_get_value d key = map_of d key"

definition dict_del_value :: "(bytes, bytes) dict \<Rightarrow> bytes \<Rightarrow> (bytes, bytes) dict" where
  "dict_del_value d key = AList.delete key d"

text \<open>\<^verbatim>\<open>Storage.setnx_value\<close>: the base class raises \<^verbatim>\<open>NotImplementedError\<close>, and neither
  \<^verbatim>\<open>DictStorage\<close> nor \<^verbatim>\<open>CachedStorage\<close> overrides it.\<close>

definition setnx_value :: "storage \<Rightarrow> bytes \<Rightarrow> bytes \<Rightarrow> error + (bool \<times> storage)" where
  "setnx_value s key val =
     Inl (NotImplementedError (class_name s @ '' does not implement setnx_value''))"

text \<open>What the specification says of \<^verbatim>\<open>setnx_value\<close>, on a \<^verbatim>\<open>DictStorage\<close>: insert only if
  the key is absent, and return whether the value was inserted.\<close>

definition setnx_value_spec ::
  "(bytes, bytes) dict \<Rightarrow> bytes \<Rightarrow> bytes \<Rightarrow> error + (bool \<times> storage)" where
  "setnx_value_spec d key val =
     (if dict_get_value d key = None then Inr (True, DictStorage (dict_set_value d key val))
      else Inr (False, DictStorage d))"

section \<open>Range-check offset extraction\<close>

text \<open>Modelled from the spec: \<^verbatim>\<open>TraceEntry\<close> (\<^verbatim>\<open>starkware.cairo.lang.vm.trace_entry\<close>) is
  imported only; an entry holds the three registers captured before an instruction executes.\<close>

record trace_entry =
  pc :: maybe_relocatable
  ap :: maybe_relocatable
  fp :: maybe_relocatable

text \<open>Python's \<^verbatim>\<open>min\<close> and \<^verbatim>\<open>max\<close> of a list raise \<^verbatim>\<open>ValueError\<close> on the empty list.\<close>

fun py_min :: "int list \<Rightarrow> error + int" where
  "py_min [] = Inl (ValueError ''min() arg is an empty sequence'')"
| "py_min (x # xs) = Inr (fold min xs x)"

fun py_max :: "int list \<Rightarrow> error + int" where
  "py_max [] = Inl (ValueError ''max() arg is an empty sequence'')"
| "py_max (x # xs) = Inr (fold max xs x)"

text \<open>
  The loop of \<^verbatim>\<open>get_perm_range_check_limits\<close>. The decoder
  \<^verbatim>\<open>decode_instruction_values\<close> is imported from the compiler and is a parameter here: it
  returns the flags and the three offsets of an encoded instruction, or fails.
\<close>

type_synonym decoder = "maybe_relocatable \<Rightarrow> error + (int \<times> int \<times> int \<times> int)"

fun collect_offsets :: "decoder \<Rightarrow> memory_dict \<Rightarrow> trace_entry list \<Rightarrow> int list \<Rightarrow> error + int list" where
  "collect_offsets decode_instruction_values mem [] offsets = Inr offsets"
| "collect_offsets decode_instruction_values mem (entry # rest) offsets =
     (case memory_getitem mem (trace_entry.pc entry) of
        Inl e \<Rightarrow> Inl e
      | Inr encoded_instruction \<Rightarrow>
          (case decode_instruction_values encoded_instruction of
             Inl e \<Rightarrow> Inl e
           | Inr (flags, off0, off1, off2) \<Rightarrow>
               collect_offsets decode_instruction_values mem rest
                 (offsets @ [off0, off1, off2])))"

definition get_perm_range_check_limits ::
  "decoder \<Rightarrow> trace_entry list \<Rightarrow> memory_dict \<Rightarrow> error + (int \<times> int)" where
  "get_perm_range_check_limits decode_instruction_values trace mem =
     (case collect_offsets decode_instruction_values mem trace [] of
        Inl e \<Rightarrow> Inl e
      | Inr offsets \<Rightarrow>
          (case py_min offsets of
             Inl e \<Rightarrow> Inl e
           | Inr lo \<Rightarrow> (case py_max offsets of Inl e \<Rightarrow> Inl e | Inr hi \<Rightarrow> Inr (lo, hi))))"

text \<open>The offsets an entry contributes when its instruction is present and decodes.\<close>

definition entry_offsets :: "decoder \<Rightarrow> memory_dict \<Rightarrow> trace_entry \<Rightarrow> int list" where
  "entry_offsets decode_instruction_values mem entry =
     (case memory_get mem (trace_entry.pc entry) of
        None \<Rightarrow> []
      | Some w \<Rightarrow>
          (case decode_instruction_values w of
             Inl e \<Rightarrow> []
           | Inr (flags, off0, off1, off2) \<Rightarrow> [off0, off1, off2]))"

definition entry_decodes :: "decoder \<Rightarrow> memory_dict \<Rightarrow> trace_entry \<Rightarrow> bool" where
  "entry_decodes decode_instruction_values mem entry =
     (case memory_get mem (trace_entry.pc entry) of
        None \<Rightarrow> False
      | Some w \<Rightarrow> (case decode_instruction_values w of Inl e \<Rightarrow> False | Inr r \<Rightarrow> True))"

section \<open>Run context and traceback reconstruction\<close>

record run_context =
  memory :: memory_dict
  pc :: maybe_relocatable
  ap :: maybe_relocatable
  fp :: maybe_relocatable
  prime :: int

definition MAX_TRACEBACK_ENTRIES :: nat where
  "MAX_TRACEBACK_ENTRIES = 20"

text \<open>
  \<^verbatim>\<open>is_call_instruction(encoded_instruction, imm)\<close> is imported from the compiler's encoder
  and is a parameter: a predicate on an encoded word and an optional immediate.

  \<^verbatim>\<open>traceback_loop\<close> is the \<^verbatim>\<open>for\<close> loop of \<^verbatim>\<open>get_traceback_entries\<close>, its first argument
  the number of iterations left; every \<^verbatim>\<open>break\<close> returns the entries collected so far.
\<close>

type_synonym call_test = "maybe_relocatable \<Rightarrow> maybe_relocatable option \<Rightarrow> bool"

fun traceback_loop ::
  "call_test \<Rightarrow> memory_dict \<Rightarrow> nat \<Rightarrow> maybe_relocatable \<Rightarrow> maybe_relocatable list
     \<Rightarrow> maybe_relocatable list" where
  "traceback_loop is_call_instruction mem 0 cur_fp entries = entries"
| "traceback_loop is_call_instruction mem (Suc n) cur_fp entries =
     (if memory_get mem (mr_sub cur_fp 2) = Some cur_fp then entries
      else
        (case (memory_get mem (mr_sub cur_fp 2), memory_get mem (mr_sub cur_fp 1)) of
           (Some prev_fp, Some ret_pc) \<Rightarrow>
             (let instruction0 = memory_get mem (mr_sub ret_pc 2);
                  instruction1 = memory_get mem (mr_sub ret_pc 1)
              in if instruction1 \<noteq> None \<and> is_call_instruction (the instruction1) None
                 then traceback_loop is_call_instruction mem n prev_fp
                        (entries @ [mr_sub ret_pc 1])
                 else if instruction0 \<noteq> None \<and> instruction1 \<noteq> None
                         \<and> is_call_instruction (the instruction0) instruction1
                 then traceback_loop is_call_instruction mem n prev_fp
                        (entries @ [mr_sub ret_pc 2])
                 else entries)
         | _ \<Rightarrow> entries))"

definition get_traceback_entries :: "call_test \<Rightarrow> run_context \<Rightarrow> maybe_relocatable list" where
  "get_traceback_entries is_call_instruction rc =
     rev (traceback_loop is_call_instruction (run_context.memory rc) MAX_TRACEBACK_ENTRIES
            (run_context.fp rc) [])"

section \<open>Programs, hints and the objects bound in a scope\<close>

text \<open>
  Objects the virtual machine only stores and hands on (builtin runners, identifier tables,
  flow-tracking data, compiled code, rule callables and their extra arguments) are values
  of a type parameter \<open>'o\<close>.

  Modelled from the spec: \<^verbatim>\<open>Program\<close>, \<^verbatim>\<open>ProgramBase\<close> and \<^verbatim>\<open>DebugInfo\<close> come from the
  compiler and are imported only. A program has a prime; a full \<^verbatim>\<open>Program\<close> also has its
  hints (a dictionary from pc offsets to ordered lists of hints, each with its source code,
  accessible scopes and flow-tracking data), identifiers, a reference manager and optional
  debug information.
\<close>

record 'o cairo_hint =
  code :: string
  accessible_scopes :: 'o
  flow_tracking_data :: 'o

record 'o debug_info =
  file_contents :: "(string, string) dict"
  instruction_locations :: "(int, 'o) dict"

record 'o program =
  prime :: int
  hints :: "(int, 'o cairo_hint list) dict"
  identifiers :: 'o
  reference_manager :: 'o
  debug_info :: "'o debug_info option"

datatype 'o program_base =
    FullProgram "'o program"
  | StrippedProgram int

fun program_prime :: "'o program_base \<Rightarrow> int" where
  "program_prime (FullProgram p) = program.prime p"
| "program_prime (StrippedProgram n) = n"

text \<open>\<^verbatim>\<open>n + base\<close> for an integer \<^verbatim>\<open>n\<close> and a \<^verbatim>\<open>MaybeRelocatable\<close> base.\<close>

fun mr_add :: "maybe_relocatable \<Rightarrow> int \<Rightarrow> maybe_relocatable" where
  "mr_add (IntValue m) n = IntValue (m + n)"
| "mr_add (RelocatableValue s off) n = RelocatableValue s (off + n)"

text \<open>
  The \<^verbatim>\<open>ids\<close> object a hint sees: \<^verbatim>\<open>VmConsts(context=VmConstsContext(...),
  accessible_scopes=...)\<close>, as built by the \<^verbatim>\<open>consts\<close> lambda of \<^verbatim>\<open>load_hints\<close>. The
  evaluator is \<^verbatim>\<open>ExpressionEvaluator(self.prime, ap, fp, memory, identifiers).eval\<close>; the
  memory it and the context refer to is the validated memory of the machine.
\<close>

record 'o vm_consts =
  ids_identifiers :: 'o
  ids_evaluator :: "int \<times> maybe_relocatable \<times> maybe_relocatable"
  ids_reference_manager :: 'o
  ids_flow_tracking_data :: 'o
  ids_pc :: maybe_relocatable
  ids_accessible_scopes :: 'o

text \<open>What a name of a scope can be bound to: a value, the validated memory of the machine (by
  reference), an \<^verbatim>\<open>ids\<close> object, a bound method of the machine, one of the finite-field
  lambdas (closed over the prime), a function of \<^verbatim>\<open>math_utils\<close>, the module of Python's
  builtins (which \<^verbatim>\<open>exec\<close> stores under \<^verbatim>\<open>__builtins__\<close>), or an opaque object.\<close>

datatype 'o pyobj =
    Value maybe_relocatable
  | ValidatedMemoryRef
  | VmConsts "'o vm_consts"
  | BoundMethod string
  | FieldLambda string int
  | MathUtilsFunction string
  | BuiltinsModule
  | Opaque 'o

type_synonym 'o scope = "(string, 'o pyobj) dict"

text \<open>\<^verbatim>\<open>CompiledHint\<close>: the compiled code and the \<^verbatim>\<open>consts\<close> closure (the field \<open>hint_consts\<close>), which captures the prime
  of the machine, the program and the hint.\<close>

record 'o consts_closure =
  closure_prime :: int
  closure_program :: "'o program"
  closure_hint :: "'o cairo_hint"

record 'o compiled_hint =
  compiled :: 'o
  hint_consts :: "'o consts_closure"

definition call_consts ::
  "'o consts_closure \<Rightarrow> maybe_relocatable \<Rightarrow> maybe_relocatable \<Rightarrow> maybe_relocatable
     \<Rightarrow> 'o vm_consts" where
  "call_consts c pc_arg ap_arg fp_arg =
     \<lparr>ids_identifiers = program.identifiers (closure_program c),
      ids_evaluator = (closure_prime c, ap_arg, fp_arg),
      ids_reference_manager = program.reference_manager (closure_program c),
      ids_flow_tracking_data = cairo_hint.flow_tracking_data (closure_hint c),
      ids_pc = pc_arg,
      ids_accessible_scopes = cairo_hint.accessible_scopes (closure_hint c)\<rparr>"

section \<open>The virtual machine\<close>

text \<open>
  Modelled from the spec: \<^verbatim>\<open>ValidatedMemoryDict\<close> is imported only. It wraps the memory of
  the run context (the same object, so the memory itself is the field of the run context)
  and holds the validation rules of each segment and the set of validated addresses.
\<close>

record 'o validated_memory_dict =
  validation_rules :: "(nat, ('o \<times> 'o list) list) dict"
  validated_addresses :: "maybe_relocatable list"

text \<open>
  The state of a \<^verbatim>\<open>VirtualMachineBase\<close>. The attributes \<^verbatim>\<open>run_context\<close>, \<^verbatim>\<open>current_step\<close>
  and \<^verbatim>\<open>trace\<close> are read by the base class and assigned by its subclass.
\<close>

record 'o vm =
  run_context :: run_context
  prime :: int
  builtin_runners :: "'o scope"
  exec_scopes :: "'o scope list"
  hints :: "(maybe_relocatable, 'o compiled_hint list) dict"
  hint_pc_and_index :: "(nat, maybe_relocatable \<times> nat) dict"
  instruction_debug_info :: "(maybe_relocatable, 'o) dict"
  debug_file_contents :: "(string, string) dict"
  program :: "'o program_base"
  validated_memory :: "'o validated_memory_dict"
  auto_deduction :: "(nat, ('o \<times> 'o list) list) dict"
  static_locals :: "'o scope"
  skip_instruction_execution :: bool
  current_step :: nat
  trace :: "trace_entry list"

text \<open>
  What the code of a hint does when executed, in order. Through the names bound in its scope
  it assigns and deletes names (in the dictionary it runs in), writes the validated memory and
  calls \<^verbatim>\<open>vm_enter_scope\<close>, \<^verbatim>\<open>vm_exit_scope\<close> and \<^verbatim>\<open>vm_load_program\<close>. The flag
  \<^verbatim>\<open>skip_instruction_execution\<close> is an attribute of the machine, so a hint that sets it holds
  the machine itself (as a hint local or a static local), and with it can assign the registers
  of the run context, the trace and the step counter as well. The scope stack is changed by
  hints only through \<^verbatim>\<open>vm_enter_scope\<close> and \<^verbatim>\<open>vm_exit_scope\<close>, as the specification states.
\<close>

datatype 'o hint_action =
    SetLocal string "'o pyobj"
  | DelLocal string
  | MemoryWrite maybe_relocatable maybe_relocatable
  | VmEnterScope "'o scope option"
  | VmExitScope
  | VmLoadProgram "'o program" maybe_relocatable
  | SetSkipInstructionExecution bool
  | SetPc maybe_relocatable
  | SetAp maybe_relocatable
  | SetFp maybe_relocatable
  | SetTrace "trace_entry list"
  | SetCurrentStep nat
  | Raise string

text \<open>
  Modelled from the spec: \<^verbatim>\<open>run_instruction\<close> is a method of the subclass. Its contract is
  that all writes go through the validated memory, exactly one trace entry is appended, and
  the registers are updated as the instruction says; its result here is the list of writes
  and the next registers.
\<close>

record run_result =
  writes :: "(maybe_relocatable \<times> maybe_relocatable) list"
  next_pc :: maybe_relocatable
  next_ap :: maybe_relocatable
  next_fp :: maybe_relocatable

text \<open>
  The capabilities the base class takes from outside: Python's \<^verbatim>\<open>compile\<close> (given the
  source and the hint id its file name is made of; \<open>Inl\<close> is a syntax error) and \<^verbatim>\<open>exec\<close>
  (the effects of running compiled code in a scope), calling a deduction rule and a validation
  rule (either may raise), and the methods of the subclass \<^verbatim>\<open>check_eq\<close>,
  \<^verbatim>\<open>decode_current_instruction\<close> and \<^verbatim>\<open>run_instruction\<close>.
\<close>

record 'o host =
  compile :: "string \<Rightarrow> nat \<Rightarrow> string + 'o"
  exec_code :: "'o \<Rightarrow> 'o scope \<Rightarrow> 'o vm \<Rightarrow> 'o hint_action list"
  call_rule :: "'o \<Rightarrow> 'o vm \<Rightarrow> maybe_relocatable \<Rightarrow> 'o list \<Rightarrow> error + maybe_relocatable option"
  call_validation_rule ::
    "'o \<Rightarrow> memory_dict \<Rightarrow> maybe_relocatable \<Rightarrow> 'o list \<Rightarrow> error + maybe_relocatable list"
  check_eq :: "'o vm \<Rightarrow> maybe_relocatable \<Rightarrow> maybe_relocatable \<Rightarrow> bool"
  decode_current_instruction :: "'o vm \<Rightarrow> error + 'o"
  run_instruction :: "'o \<Rightarrow> 'o vm \<Rightarrow> error + run_result"

subsection \<open>Validated memory\<close>

fun run_validation_rules ::
  "'o host \<Rightarrow> memory_dict \<Rightarrow> maybe_relocatable \<Rightarrow> ('o \<times> 'o list) list
     \<Rightarrow> maybe_relocatable list \<Rightarrow> error + maybe_relocatable list" where
  "run_validation_rules h mem addr [] validated = Inr validated"
| "run_validation_rules h mem addr ((rule, args) # rest) validated =
     (case call_validation_rule h rule mem addr args of
        Inl e \<Rightarrow> Inl e
      | Inr addrs \<Rightarrow> run_validation_rules h mem addr rest (validated @ addrs))"

definition validate_memory_cell ::
  "'o host \<Rightarrow> 'o vm \<Rightarrow> maybe_relocatable \<Rightarrow> error + 'o vm" where
  "validate_memory_cell h v addr =
     (if is_relocatable addr
         \<and> addr \<notin> set (validated_addresses (validated_memory v))
      then
        (case run_validation_rules h (run_context.memory (run_context v)) addr
                (dict_get_default (validation_rules (validated_memory v)) (segment_index addr) [])
                (validated_addresses (validated_memory v)) of
           Inl e \<Rightarrow> Inl e
         | Inr validated \<Rightarrow>
             Inr (v\<lparr>validated_memory :=
                      (validated_memory v)\<lparr>validated_addresses := validated\<rparr>\<rparr>))
      else Inr v)"

definition validated_memory_setitem ::
  "'o host \<Rightarrow> 'o vm \<Rightarrow> maybe_relocatable \<Rightarrow> maybe_relocatable \<Rightarrow> error + 'o vm" where
  "validated_memory_setitem h v addr val =
     (case memory_setitem (run_context.memory (run_context v)) addr val of
        Inl e \<Rightarrow> Inl e
      | Inr mem \<Rightarrow>
          validate_memory_cell h (v\<lparr>run_context := (run_context v)\<lparr>memory := mem\<rparr>\<rparr>) addr)"

definition validated_memory_getitem :: "'o vm \<Rightarrow> maybe_relocatable \<Rightarrow> error + maybe_relocatable" where
  "validated_memory_getitem v addr = memory_getitem (run_context.memory (run_context v)) addr"

fun validate_cells :: "'o host \<Rightarrow> 'o vm \<Rightarrow> maybe_relocatable list \<Rightarrow> error + 'o vm" where
  "validate_cells h v [] = Inr v"
| "validate_cells h v (addr # rest) =
     (case validate_memory_cell h v addr of
        Inl e \<Rightarrow> Inl e
      | Inr v' \<Rightarrow> validate_cells h v' rest)"

definition validate_existing_memory :: "'o host \<Rightarrow> 'o vm \<Rightarrow> error + 'o vm" where
  "validate_existing_memory h v =
     validate_cells h v (map fst (run_context.memory (run_context v)))"

definition add_validation_rule :: "nat \<Rightarrow> 'o \<Rightarrow> 'o list \<Rightarrow> 'o vm \<Rightarrow> 'o vm" where
  "add_validation_rule seg rule args v =
     v\<lparr>validated_memory := (validated_memory v)\<lparr>validation_rules :=
          AList.update seg
            (dict_get_default (validation_rules (validated_memory v)) seg [] @ [(rule, args)])
            (validation_rules (validated_memory v))\<rparr>\<rparr>"

subsection \<open>Scopes\<close>

definition enter_scope :: "'o scope option \<Rightarrow> 'o vm \<Rightarrow> 'o vm" where
  "enter_scope new_scope_locals v =
     v\<lparr>exec_scopes := exec_scopes v @
          [dict_update (case new_scope_locals of None \<Rightarrow> [] | Some l \<Rightarrow> l)
             (builtin_runners v)]\<rparr>"

definition exit_scope :: "'o vm \<Rightarrow> error + 'o vm" where
  "exit_scope v =
     (if length (exec_scopes v) > 1 then Inr (v\<lparr>exec_scopes := butlast (exec_scopes v)\<rparr>)
      else Inl (AssertionError ''Cannot exit main scope.''))"

subsection \<open>Loading a program\<close>

text \<open>\<^verbatim>\<open>as_vm_exception\<close> wraps an exception with the current pc and the index of the hint; the
  source location and the formatted traceback it also attaches are left out.\<close>

definition as_vm_exception :: "'o vm \<Rightarrow> error \<Rightarrow> nat option \<Rightarrow> error" where
  "as_vm_exception v exc hint_index =
     VmException (run_context.pc (run_context v)) hint_index exc"

definition compile_hint :: "'o host \<Rightarrow> 'o vm \<Rightarrow> string \<Rightarrow> nat \<Rightarrow> nat \<Rightarrow> error + 'o" where
  "compile_hint h v source hint_id hint_index =
     (case compile h source hint_id of
        Inl msg \<Rightarrow> Inl (as_vm_exception v (HostException msg) (Some hint_index))
      | Inr c \<Rightarrow> Inr c)"

fun compile_hints ::
  "'o host \<Rightarrow> 'o program \<Rightarrow> maybe_relocatable \<Rightarrow> 'o vm \<Rightarrow> nat \<Rightarrow> 'o cairo_hint list
     \<Rightarrow> 'o compiled_hint list \<Rightarrow> error + ('o compiled_hint list \<times> 'o vm)" where
  "compile_hints h prog hint_pc v hint_index [] compiled_hints = Inr (compiled_hints, v)"
| "compile_hints h prog hint_pc v hint_index (hint # rest) compiled_hints =
     (let hint_id = length (hint_pc_and_index v);
          v1 = v\<lparr>hint_pc_and_index :=
                  AList.update hint_id (hint_pc, hint_index) (hint_pc_and_index v)\<rparr>
      in case compile_hint h v1 (cairo_hint.code hint) hint_id hint_index of
           Inl e \<Rightarrow> Inl e
         | Inr c \<Rightarrow>
             compile_hints h prog hint_pc v1 (Suc hint_index) rest
               (compiled_hints @
                  [\<lparr>compiled = c,
                    hint_consts = \<lparr>closure_prime = vm.prime v1, closure_program = prog,
                              closure_hint = hint\<rparr>\<rparr>]))"

fun load_hints_loop ::
  "'o host \<Rightarrow> 'o program \<Rightarrow> maybe_relocatable \<Rightarrow> 'o vm \<Rightarrow> (int \<times> 'o cairo_hint list) list
     \<Rightarrow> error + 'o vm" where
  "load_hints_loop h prog program_base v [] = Inr v"
| "load_hints_loop h prog program_base v ((hint_offset, hs) # rest) =
     (case compile_hints h prog (mr_add program_base hint_offset) v 0 hs [] of
        Inl e \<Rightarrow> Inl e
      | Inr (compiled_hints, v1) \<Rightarrow>
          load_hints_loop h prog program_base
            (v1\<lparr>hints := AList.update (mr_add program_base hint_offset) compiled_hints
                            (vm.hints v1)\<rparr>)
            rest)"

definition load_hints :: "'o host \<Rightarrow> 'o program \<Rightarrow> maybe_relocatable \<Rightarrow> 'o vm \<Rightarrow> error + 'o vm" where
  "load_hints h prog program_base v = load_hints_loop h prog program_base v (program.hints prog)"

definition load_debug_info :: "'o debug_info option \<Rightarrow> maybe_relocatable \<Rightarrow> 'o vm \<Rightarrow> 'o vm" where
  "load_debug_info info program_base v =
     (case info of
        None \<Rightarrow> v
      | Some d \<Rightarrow>
          v\<lparr>debug_file_contents := dict_update (debug_file_contents v) (file_contents d),
            instruction_debug_info :=
              fold (\<lambda>(off, location_info). AList.update (mr_add program_base off) location_info)
                (instruction_locations d) (instruction_debug_info v)\<rparr>)"

text \<open>\<^verbatim>\<open>load_program\<close>; the message of the failed assertion is given without the two primes it
  quotes.\<close>

definition load_program :: "'o host \<Rightarrow> 'o program \<Rightarrow> maybe_relocatable \<Rightarrow> 'o vm \<Rightarrow> error + 'o vm" where
  "load_program h prog program_base v =
     (if vm.prime v = program.prime prog
      then load_hints h prog program_base (load_debug_info (program.debug_info prog) program_base v)
      else Inl (AssertionError ''Unexpected prime for loaded program.''))"

subsection \<open>The constructor\<close>

definition builtin_static_locals :: "int \<Rightarrow> 'o scope" where
  "builtin_static_locals p =
     [(''PRIME'', Value (IntValue p)),
      (''fadd'', FieldLambda ''fadd'' p),
      (''fsub'', FieldLambda ''fsub'' p),
      (''fmul'', FieldLambda ''fmul'' p),
      (''fdiv'', FieldLambda ''fdiv'' p),
      (''fpow'', FieldLambda ''fpow'' p),
      (''fis_quad_residue'', FieldLambda ''fis_quad_residue'' p),
      (''fsqrt'', FieldLambda ''fsqrt'' p),
      (''safe_div'', MathUtilsFunction ''safe_div'')]"

definition vm_init ::
  "'o host \<Rightarrow> 'o program_base \<Rightarrow> run_context \<Rightarrow> 'o scope \<Rightarrow> 'o scope option \<Rightarrow> 'o scope
     \<Rightarrow> maybe_relocatable \<Rightarrow> error + 'o vm" where
  "vm_init h prog rc hint_locals user_static_locals runners program_base =
     (let v0 = \<lparr>run_context = rc,
                prime = program_prime prog,
                builtin_runners = runners,
                exec_scopes = [],
                hints = [],
                hint_pc_and_index = [],
                instruction_debug_info = [],
                debug_file_contents = [],
                program = prog,
                validated_memory = \<lparr>validation_rules = [], validated_addresses = []\<rparr>,
                auto_deduction = [],
                static_locals = [],
                skip_instruction_execution = False,
                current_step = 0,
                trace = []\<rparr>;
          v1 = enter_scope (Some hint_locals) v0;
          finish = (\<lambda>v. v\<lparr>auto_deduction := [],
                          static_locals :=
                            dict_update
                              (case user_static_locals of None \<Rightarrow> [] | Some l \<Rightarrow> dict_copy l)
                              (builtin_static_locals (vm.prime v))\<rparr>)
      in case prog of
           FullProgram p \<Rightarrow>
             (case load_program h p program_base v1 of
                Inl e \<Rightarrow> Inl e
              | Inr v2 \<Rightarrow> Inr (finish v2))
         | StrippedProgram n \<Rightarrow> Inr (finish v1))"

subsection \<open>Auto-deduction\<close>

definition add_auto_deduction_rule :: "nat \<Rightarrow> 'o \<Rightarrow> 'o list \<Rightarrow> 'o vm \<Rightarrow> 'o vm" where
  "add_auto_deduction_rule seg rule args v =
     v\<lparr>auto_deduction :=
          AList.update seg (dict_get_default (auto_deduction v) seg [] @ [(rule, args)])
            (auto_deduction v)\<rparr>"

text \<open>The loop of \<^verbatim>\<open>deduce_memory_cell\<close> over the rules of the segment.\<close>

fun deduce_loop ::
  "'o host \<Rightarrow> 'o vm \<Rightarrow> maybe_relocatable \<Rightarrow> ('o \<times> 'o list) list
     \<Rightarrow> error + (maybe_relocatable option \<times> 'o vm)" where
  "deduce_loop h v addr [] = Inr (None, v)"
| "deduce_loop h v addr ((rule, args) # rest) =
     (case call_rule h rule v addr args of
        Inl e \<Rightarrow> Inl e
      | Inr None \<Rightarrow> deduce_loop h v addr rest
      | Inr (Some val) \<Rightarrow>
          (case validated_memory_setitem h v addr val of
             Inl e \<Rightarrow> Inl e
           | Inr v' \<Rightarrow> Inr (Some val, v')))"

definition deduce_memory_cell ::
  "'o host \<Rightarrow> 'o vm \<Rightarrow> maybe_relocatable \<Rightarrow> error + (maybe_relocatable option \<times> 'o vm)" where
  "deduce_memory_cell h v addr =
     (if \<not> is_relocatable addr then Inr (None, v)
      else deduce_loop h v addr (dict_get_default (auto_deduction v) (segment_index addr) []))"

text \<open>The two loops of \<^verbatim>\<open>verify_auto_deductions\<close>: over the rules of one address, and over
  the written addresses in the order of the memory dictionary.\<close>

fun verify_rules ::
  "'o host \<Rightarrow> 'o vm \<Rightarrow> maybe_relocatable \<Rightarrow> ('o \<times> 'o list) list \<Rightarrow> error + unit" where
  "verify_rules h v addr [] = Inr ()"
| "verify_rules h v addr ((rule, args) # rest) =
     (case call_rule h rule v addr args of
        Inl e \<Rightarrow> Inl e
      | Inr None \<Rightarrow> verify_rules h v addr rest
      | Inr (Some val) \<Rightarrow>
          (case validated_memory_getitem v addr of
             Inl e \<Rightarrow> Inl e
           | Inr current \<Rightarrow>
               if current \<noteq> val \<and> \<not> check_eq h v current val
               then Inl (InconsistentAutoDeductionError addr current val)
               else verify_rules h v addr rest))"

fun verify_addresses :: "'o host \<Rightarrow> 'o vm \<Rightarrow> maybe_relocatable list \<Rightarrow> error + unit" where
  "verify_addresses h v [] = Inr ()"
| "verify_addresses h v (addr # rest) =
     (if \<not> is_relocatable addr then verify_addresses h v rest
      else
        (case verify_rules h v addr
                (dict_get_default (auto_deduction v) (segment_index addr) []) of
           Inl e \<Rightarrow> Inl e
         | Inr u \<Rightarrow> verify_addresses h v rest))"

definition verify_auto_deductions :: "'o host \<Rightarrow> 'o vm \<Rightarrow> error + unit" where
  "verify_auto_deductions h v =
     verify_addresses h v (map fst (run_context.memory (run_context v)))"

definition end_run :: "'o host \<Rightarrow> 'o vm \<Rightarrow> error + unit" where
  "end_run h v =
     (case verify_auto_deductions h v of
        Inl e \<Rightarrow> Inl e
      | Inr u \<Rightarrow>
          if length (exec_scopes v) \<noteq> 1
          then Inl (VmExceptionBase ''Every enter_scope() requires a corresponding exit_scope().'')
          else Inr ())"

subsection \<open>Hints and the step\<close>

text \<open>\<^verbatim>\<open>del d[k]\<close> raises \<^verbatim>\<open>KeyError\<close> when the key is missing.\<close>

definition dict_delitem :: "('k, 'v) dict \<Rightarrow> 'k \<Rightarrow> string \<Rightarrow> error + ('k, 'v) dict" where
  "dict_delitem d k shown =
     (if map_of d k = None then Inl (KeyError shown) else Inr (AList.delete k d))"

text \<open>The names \<^verbatim>\<open>step\<close> stores in the dictionary on top of the scope stack before it executes
  a hint, in the order of the source; the static locals come last.\<close>

definition hint_exec_locals :: "'o vm \<Rightarrow> 'o compiled_hint \<Rightarrow> 'o scope \<Rightarrow> 'o scope" where
  "hint_exec_locals v hint exec_locals =
     (let rc = run_context v;
          l1 = AList.update ''memory'' ValidatedMemoryRef exec_locals;
          l2 = AList.update ''ap'' (Value (run_context.ap rc)) l1;
          l3 = AList.update ''fp'' (Value (run_context.fp rc)) l2;
          l4 = AList.update ''pc'' (Value (run_context.pc rc)) l3;
          l5 = AList.update ''current_step'' (Value (IntValue (int (current_step v)))) l4;
          l6 = AList.update ''ids''
                 (VmConsts (call_consts (hint_consts hint) (run_context.pc rc)
                    (run_context.ap rc) (run_context.fp rc))) l5;
          l7 = AList.update ''vm_load_program'' (BoundMethod ''load_program'') l6;
          l8 = AList.update ''vm_enter_scope'' (BoundMethod ''enter_scope'') l7;
          l9 = AList.update ''vm_exit_scope'' (BoundMethod ''exit_scope'') l8
      in dict_update l9 (static_locals v))"

text \<open>
  One effect of a running hint. The state is the machine, the dictionary the hint runs in, and
  whether that dictionary is still on the scope stack (at the index \<open>i\<close> where it was when the
  hint started): \<^verbatim>\<open>vm_exit_scope\<close> may pop it, after which the hint goes on using it but the
  stack no longer holds it.
\<close>

fun run_action ::
  "'o host \<Rightarrow> nat \<Rightarrow> 'o hint_action \<Rightarrow> 'o vm \<times> 'o scope \<times> bool
     \<Rightarrow> error + ('o vm \<times> 'o scope \<times> bool)" where
  "run_action h i (SetLocal k x) (v, l, on_stack) = Inr (v, AList.update k x l, on_stack)"
| "run_action h i (DelLocal k) (v, l, on_stack) =
     (if map_of l k = None then Inl (NameError k) else Inr (v, AList.delete k l, on_stack))"
| "run_action h i (MemoryWrite addr val) (v, l, on_stack) =
     (case validated_memory_setitem h v addr val of
        Inl e \<Rightarrow> Inl e
      | Inr v' \<Rightarrow> Inr (v', l, on_stack))"
| "run_action h i (VmEnterScope new_scope_locals) (v, l, on_stack) =
     Inr (enter_scope new_scope_locals v, l, on_stack)"
| "run_action h i VmExitScope (v, l, on_stack) =
     (case exit_scope v of
        Inl e \<Rightarrow> Inl e
      | Inr v' \<Rightarrow> Inr (v', l, on_stack \<and> i < length (exec_scopes v')))"
| "run_action h i (VmLoadProgram prog program_base) (v, l, on_stack) =
     (case load_program h prog program_base v of
        Inl e \<Rightarrow> Inl e
      | Inr v' \<Rightarrow> Inr (v', l, on_stack))"
| "run_action h i (SetSkipInstructionExecution b) (v, l, on_stack) =
     Inr (v\<lparr>skip_instruction_execution := b\<rparr>, l, on_stack)"
| "run_action h i (SetPc x) (v, l, on_stack) =
     Inr (v\<lparr>run_context := (run_context v)\<lparr>run_context.pc := x\<rparr>\<rparr>, l, on_stack)"
| "run_action h i (SetAp x) (v, l, on_stack) =
     Inr (v\<lparr>run_context := (run_context v)\<lparr>run_context.ap := x\<rparr>\<rparr>, l, on_stack)"
| "run_action h i (SetFp x) (v, l, on_stack) =
     Inr (v\<lparr>run_context := (run_context v)\<lparr>run_context.fp := x\<rparr>\<rparr>, l, on_stack)"
| "run_action h i (SetTrace entries) (v, l, on_stack) = Inr (v\<lparr>trace := entries\<rparr>, l, on_stack)"
| "run_action h i (SetCurrentStep n) (v, l, on_stack) =
     Inr (v\<lparr>current_step := n\<rparr>, l, on_stack)"
| "run_action h i (Raise msg) (v, l, on_stack) = Inl (HostException msg)"

text \<open>The effects in order; at the first one that raises, the exception and the machine as it
  is then.\<close>

fun run_actions ::
  "'o host \<Rightarrow> nat \<Rightarrow> 'o hint_action list \<Rightarrow> 'o vm \<times> 'o scope \<times> bool
     \<Rightarrow> (error \<times> 'o vm) + ('o vm \<times> 'o scope \<times> bool)" where
  "run_actions h i [] st = Inr st"
| "run_actions h i (a # rest) st =
     (case run_action h i a st of
        Inl e \<Rightarrow> Inl (e, fst st)
      | Inr st' \<Rightarrow> run_actions h i rest st')"

text \<open>\<^verbatim>\<open>exec(code, globals_)\<close> stores the builtins module under \<^verbatim>\<open>__builtins__\<close> in the
  dictionary it is given, unless the name is bound already.\<close>

definition exec_globals :: "'o scope \<Rightarrow> 'o scope" where
  "exec_globals globals =
     (if map_of globals ''__builtins__'' = None
      then AList.update ''__builtins__'' BuiltinsModule globals
      else globals)"

text \<open>\<^verbatim>\<open>exec_hint\<close>: any exception of the executed code is wrapped by \<^verbatim>\<open>as_vm_exception\<close>,
  with the pc the machine has when it is raised.\<close>

definition exec_hint ::
  "'o host \<Rightarrow> 'o vm \<Rightarrow> 'o \<Rightarrow> 'o scope \<Rightarrow> nat \<Rightarrow> error + ('o vm \<times> 'o scope \<times> bool)" where
  "exec_hint h v compiled_code globals hint_index =
     (case run_actions h (length (exec_scopes v) - 1)
             (exec_code h compiled_code (exec_globals globals) v)
             (v, exec_globals globals, True) of
        Inl (e, v_raised) \<Rightarrow> Inl (as_vm_exception v_raised e (Some hint_index))
      | Inr st \<Rightarrow> Inr st)"

text \<open>The dictionary the code of a hint is executed in by \<^verbatim>\<open>step\<close>: the top of the scope
  stack with the names of the step and the builtins stored in it.\<close>

definition hint_globals :: "'o vm \<Rightarrow> 'o compiled_hint \<Rightarrow> 'o scope" where
  "hint_globals v hint = exec_globals (hint_exec_locals v hint (last (exec_scopes v)))"

text \<open>The body of the \<^verbatim>\<open>for\<close> loop of \<^verbatim>\<open>step\<close>, up to the test of the skip flag.\<close>

definition hint_body :: "'o host \<Rightarrow> 'o vm \<Rightarrow> nat \<Rightarrow> 'o compiled_hint \<Rightarrow> error + 'o vm" where
  "hint_body h v hint_index hint =
     (if exec_scopes v = [] then Inl (IndexError ''list index out of range'')
      else
        (case exec_hint h v (compiled hint) (hint_exec_locals v hint (last (exec_scopes v)))
                hint_index of
           Inl e \<Rightarrow> Inl e
         | Inr (v1, l1, on_stack) \<Rightarrow>
             (case dict_delitem l1 ''ids'' ''ids'' of
                Inl e \<Rightarrow> Inl e
              | Inr l2 \<Rightarrow>
                  (case dict_delitem l2 ''memory'' ''memory'' of
                     Inl e \<Rightarrow> Inl e
                   | Inr l3 \<Rightarrow>
                       Inr (if on_stack
                            then v1\<lparr>exec_scopes :=
                                      (exec_scopes v1)[length (exec_scopes v) - 1 := l3]\<rparr>
                            else v1)))))"

text \<open>The \<^verbatim>\<open>for\<close> loop of \<^verbatim>\<open>step\<close>; the boolean tells whether the step returned from inside
  the loop.\<close>

fun run_hints ::
  "'o host \<Rightarrow> 'o vm \<Rightarrow> nat \<Rightarrow> 'o compiled_hint list \<Rightarrow> error + (bool \<times> 'o vm)" where
  "run_hints h v hint_index [] = Inr (False, v)"
| "run_hints h v hint_index (hint # rest) =
     (case hint_body h v hint_index hint of
        Inl e \<Rightarrow> Inl e
      | Inr v' \<Rightarrow>
          if skip_instruction_execution v' then Inr (True, v')
          else run_hints h v' (Suc hint_index) rest)"

fun write_all ::
  "'o host \<Rightarrow> 'o vm \<Rightarrow> (maybe_relocatable \<times> maybe_relocatable) list \<Rightarrow> error + 'o vm" where
  "write_all h v [] = Inr v"
| "write_all h v ((addr, val) # rest) =
     (case validated_memory_setitem h v addr val of
        Inl e \<Rightarrow> Inl e
      | Inr v' \<Rightarrow> write_all h v' rest)"

text \<open>Modelled from the spec: the effect of \<^verbatim>\<open>run_instruction\<close> on the machine, as its
  contract states it.\<close>

definition run_instruction_effect :: "'o host \<Rightarrow> 'o \<Rightarrow> 'o vm \<Rightarrow> error + 'o vm" where
  "run_instruction_effect h instruction v =
     (case run_instruction h instruction v of
        Inl e \<Rightarrow> Inl e
      | Inr r \<Rightarrow>
          (case write_all h v (writes r) of
             Inl e \<Rightarrow> Inl e
           | Inr v' \<Rightarrow>
               Inr (v'\<lparr>trace := vm.trace v' @
                                  [\<lparr>trace_entry.pc = run_context.pc (run_context v'),
                                    trace_entry.ap = run_context.ap (run_context v'),
                                    trace_entry.fp = run_context.fp (run_context v')\<rparr>],
                       current_step := Suc (current_step v'),
                       run_context := (run_context v')\<lparr>run_context.pc := next_pc r,
                                        run_context.ap := next_ap r,
                                        run_context.fp := next_fp r\<rparr>\<rparr>)))"

definition decode_and_run :: "'o host \<Rightarrow> 'o vm \<Rightarrow> error + 'o vm" where
  "decode_and_run h v =
     (case decode_current_instruction h v of
        Inl e \<Rightarrow> Inl e
      | Inr instruction \<Rightarrow> run_instruction_effect h instruction v)"

definition step :: "'o host \<Rightarrow> 'o vm \<Rightarrow> error + 'o vm" where
  "step h v =
     (let v0 = v\<lparr>skip_instruction_execution := False\<rparr>
      in case run_hints h v0 0
                (dict_get_default (vm.hints v0) (run_context.pc (run_context v0)) []) of
           Inl e \<Rightarrow> Inl e
         | Inr (returned, v1) \<Rightarrow> if returned then Inr v1 else decode_and_run h v1)"

subsection \<open>Runs\<close>

text \<open>
  The states of a run: the state the constructor leaves, and every state an operation of the
  machine, a hint, or a single effect of a hint leads to from such a state.
\<close>

inductive reachable :: "'o host \<Rightarrow> 'o vm \<Rightarrow> bool" for h :: "'o host" where
  r_init: "vm_init h prog rc hint_locals user_static_locals runners program_base = Inr v
             \<Longrightarrow> reachable h v"
| r_enter: "reachable h v \<Longrightarrow> reachable h (enter_scope new_scope_locals v)"
| r_exit: "reachable h v \<Longrightarrow> exit_scope v = Inr v' \<Longrightarrow> reachable h v'"
| r_reset: "reachable h v \<Longrightarrow> reachable h (v\<lparr>skip_instruction_execution := False\<rparr>)"
| r_action: "reachable h v \<Longrightarrow> run_action h i a (v, l, on_stack) = Inr (v', l', on_stack')
               \<Longrightarrow> reachable h v'"
| r_hint: "reachable h v \<Longrightarrow> hint_body h v hint_index hint = Inr v' \<Longrightarrow> reachable h v'"
| r_run: "reachable h v \<Longrightarrow> decode_and_run h v = Inr v' \<Longrightarrow> reachable h v'"
| r_deduce: "reachable h v \<Longrightarrow> deduce_memory_cell h v addr = Inr (res, v') \<Longrightarrow> reachable h v'"
| r_add_deduction: "reachable h v \<Longrightarrow> reachable h (add_auto_deduction_rule seg rule args v)"
| r_add_validation: "reachable h v \<Longrightarrow> reachable h (add_validation_rule seg rule args v)"
| r_validate: "reachable h v \<Longrightarrow> validate_existing_memory h v = Inr v' \<Longrightarrow> reachable h v'"
| r_load: "reachable h v \<Longrightarrow> load_program h prog program_base v = Inr v' \<Longrightarrow> reachable h v'"

text \<open>The memory after a list of writes that all succeed: a new address is appended, a
  written one keeps its value.\<close>

fun apply_writes ::
  "memory_dict \<Rightarrow> (maybe_relocatable \<times> maybe_relocatable) list \<Rightarrow> memory_dict" where
  "apply_writes m [] = m"
| "apply_writes m ((addr, val) # rest) =
     apply_writes (if map_of m addr = None then m @ [(addr, val)] else m) rest"

fun memory_writes :: "'o hint_action list \<Rightarrow> (maybe_relocatable \<times> maybe_relocatable) list" where
  "memory_writes [] = []"
| "memory_writes (MemoryWrite addr val # rest) = (addr, val) # memory_writes rest"
| "memory_writes (a # rest) = memory_writes rest"

subsection \<open>Consistency of the memory with the deduction rules\<close>

text \<open>The rules registered for the segment of an address.\<close>

definition segment_rules :: "'o vm \<Rightarrow> maybe_relocatable \<Rightarrow> ('o \<times> 'o list) list" where
  "segment_rules v addr = dict_get_default (auto_deduction v) (segment_index addr) []"

text \<open>A written relocatable address \<open>addr\<close> holds \<open>current\<close> while a rule of its segment returns
  \<open>val\<close>, the two differ and \<^verbatim>\<open>check_eq\<close> does not accept them.\<close>

definition deduction_mismatch ::
  "'o host \<Rightarrow> 'o vm \<Rightarrow> maybe_relocatable \<Rightarrow> maybe_relocatable \<Rightarrow> maybe_relocatable \<Rightarrow> bool" where
  "deduction_mismatch h v addr current val =
     (is_relocatable addr
      \<and> memory_get (run_context.memory (run_context v)) addr = Some current
      \<and> list_ex (\<lambda>(rule, args). call_rule h rule v addr args = Inr (Some val)) (segment_rules v addr)
      \<and> current \<noteq> val \<and> \<not> check_eq h v current val)"

text \<open>Every rule returns (a value or none) on every written relocatable address: none of them
  raises.\<close>

definition rules_return :: "'o host \<Rightarrow> 'o vm \<Rightarrow> bool" where
  "rules_return h v =
     list_all (\<lambda>addr. list_all (\<lambda>(rule, args). \<not> isl (call_rule h rule v addr args))
                        (segment_rules v addr))
       (filter is_relocatable (map fst (run_context.memory (run_context v))))"

subsection \<open>What an operation leaves alone\<close>

text \<open>The static locals, the program and its prime, the builtin runners, the deduction rules,
  the three registers, the trace and the step counter are the same in both states.\<close>

definition frame_eq :: "'o vm \<Rightarrow> 'o vm \<Rightarrow> bool" where
  "frame_eq v v' =
     (static_locals v' = static_locals v \<and> program v' = program v \<and> vm.prime v' = vm.prime v
      \<and> builtin_runners v' = builtin_runners v \<and> auto_deduction v' = auto_deduction v
      \<and> run_context.pc (run_context v') = run_context.pc (run_context v)
      \<and> run_context.ap (run_context v') = run_context.ap (run_context v)
      \<and> run_context.fp (run_context v') = run_context.fp (run_context v)
      \<and> vm.trace v' = vm.trace v \<and> current_step v' = current_step v)"

text \<open>The part of it no hint can touch: the static locals, the program and its prime, the
  builtin runners and the deduction rules.\<close>

definition static_eq :: "'o vm \<Rightarrow> 'o vm \<Rightarrow> bool" where
  "static_eq v v' =
     (static_locals v' = static_locals v \<and> program v' = program v \<and> vm.prime v' = vm.prime v
      \<and> builtin_runners v' = builtin_runners v \<and> auto_deduction v' = auto_deduction v)"

text \<open>The effects that do not assign a register, the trace or the step counter.\<close>

fun keeps_registers :: "'o hint_action \<Rightarrow> bool" where
  "keeps_registers (SetPc x) = False"
| "keeps_registers (SetAp x) = False"
| "keeps_registers (SetFp x) = False"
| "keeps_registers (SetTrace entries) = False"
| "keeps_registers (SetCurrentStep n) = False"
| "keeps_registers a = True"

text \<open>No hint that the loop of \<^verbatim>\<open>step\<close> executes, from the state \<open>v\<close> on, assigns a register,
  the trace or the step counter. The loop stops at the first hint that fails or sets the skip
  flag.\<close>

fun hints_keep_registers ::
  "'o host \<Rightarrow> 'o vm \<Rightarrow> nat \<Rightarrow> 'o compiled_hint list \<Rightarrow> bool" where
  "hints_keep_registers h v hint_index [] = True"
| "hints_keep_registers h v hint_index (hint # rest) =
     (list_all keeps_registers (exec_code h (compiled hint) (hint_globals v hint) v)
      \<and> (case hint_body h v hint_index hint of
            Inl e \<Rightarrow> True
          | Inr v' \<Rightarrow>
              skip_instruction_execution v' \<or> hints_keep_registers h v' (Suc hint_index) rest))"

subsection \<open>The names bound for a hint\<close>

text \<open>The names \<^verbatim>\<open>step\<close> assigns before each hint, besides the static locals.\<close>

definition hint_names :: "string list" where
  "hint_names =
     [''memory'', ''ap'', ''fp'', ''pc'', ''current_step'', ''ids'', ''vm_load_program'',
      ''vm_enter_scope'', ''vm_exit_scope'']"

text \<open>
  What the amended claim on the bindings says of a dictionary \<open>l\<close> handed to a hint in the state
  \<open>w\<close>: the names of the step are bound, every static local is bound to its static value,
  \<^verbatim>\<open>PRIME\<close> is the prime of the program, and \<^verbatim>\<open>memory\<close>, \<^verbatim>\<open>ap\<close>, \<^verbatim>\<open>fp\<close>, \<^verbatim>\<open>pc\<close> are the
  validated memory and the registers unless a static local has that name.
\<close>

definition hint_globals_ok :: "'o vm \<Rightarrow> 'o scope \<Rightarrow> bool" where
  "hint_globals_ok w l =
     (list_all (\<lambda>name. map_of l name \<noteq> None) hint_names
      \<and> list_all (\<lambda>(name, x). map_of l name = Some x) (static_locals w)
      \<and> map_of l ''PRIME'' = Some (Value (IntValue (program_prime (program w))))
      \<and> (map_of (static_locals w) ''memory'' = None \<longrightarrow>
            map_of l ''memory'' = Some ValidatedMemoryRef)
      \<and> (map_of (static_locals w) ''ap'' = None \<longrightarrow>
            map_of l ''ap'' = Some (Value (run_context.ap (run_context w))))
      \<and> (map_of (static_locals w) ''fp'' = None \<longrightarrow>
            map_of l ''fp'' = Some (Value (run_context.fp (run_context w))))
      \<and> (map_of (static_locals w) ''pc'' = None \<longrightarrow>
            map_of l ''pc'' = Some (Value (run_context.pc (run_context w)))))"

subsection \<open>Hosts that run hints alike\<close>

text \<open>Two hosts that compile alike and run the same validation rules: the effects of a hint
  are the same on both.\<close>

definition same_effects_host :: "'o host \<Rightarrow> 'o host \<Rightarrow> bool" where
  "same_effects_host h h' =
     (compile h' = compile h \<and> call_validation_rule h' = call_validation_rule h)"

text \<open>Two hosts that compile and execute hints alike and run the same validation rules; they
  may differ in the instruction decoder, in \<^verbatim>\<open>run_instruction\<close>, in the deduction rules and
  in \<^verbatim>\<open>check_eq\<close>.\<close>

definition same_hint_host :: "'o host \<Rightarrow> 'o host \<Rightarrow> bool" where
  "same_hint_host h h' =
     (compile h' = compile h \<and> exec_code h' = exec_code h
      \<and> call_validation_rule h' = call_validation_rule h)"

subsection \<open>Parts of the result of a step\<close>

definition result_memory :: "error + 'o vm \<Rightarrow> error + memory_dict" where
  "result_memory r = map_sum id (\<lambda>v. run_context.memory (run_context v)) r"

definition result_skip_and_pc :: "error + 'o vm \<Rightarrow> error + (bool \<times> maybe_relocatable)" where
  "result_skip_and_pc r =
     map_sum id (\<lambda>v. (skip_instruction_execution v, run_context.pc (run_context v))) r"

section \<open>Concrete inputs\<close>

text \<open>A decoder, a program memory and a trace of three entries whose instructions decode
  to the offsets \<open>(1,2,3)\<close>, \<open>(0,5,2)\<close> and \<open>(4,4,4)\<close>.\<close>

definition example_decoder :: decoder where
  "example_decoder w =
     (if w = IntValue 100 then Inr (0, 1, 2, 3)
      else if w = IntValue 101 then Inr (0, 0, 5, 2)
      else if w = IntValue 102 then Inr (0, 4, 4, 4)
      else Inl (AssertionError ''Unsupported instruction.''))"

definition example_program_memory :: memory_dict where
  "example_program_memory =
     [(RelocatableValue 0 0, IntValue 100), (RelocatableValue 0 1, IntValue 101),
      (RelocatableValue 0 2, IntValue 102)]"

definition example_trace :: "trace_entry list" where
  "example_trace =
     [\<lparr>trace_entry.pc = RelocatableValue 0 0, ap = RelocatableValue 1 0,
       fp = RelocatableValue 1 0\<rparr>,
      \<lparr>trace_entry.pc = RelocatableValue 0 1, ap = RelocatableValue 1 1,
       fp = RelocatableValue 1 0\<rparr>,
      \<lparr>trace_entry.pc = RelocatableValue 0 2, ap = RelocatableValue 1 2,
       fp = RelocatableValue 1 0\<rparr>]"

text \<open>A frame whose return pc \<open>(0,20)\<close> is preceded by two words that can be read both ways:
  the word at \<open>(0,19)\<close> is a call without immediate, and the words at \<open>(0,18)\<close> and \<open>(0,19)\<close>
  together are a call with immediate.\<close>

definition example_is_call :: call_test where
  "example_is_call w imm =
     ((w = IntValue 7 \<and> imm = None) \<or> (w = IntValue 5 \<and> imm = Some (IntValue 7)))"

definition example_call_memory :: memory_dict where
  "example_call_memory =
     [(RelocatableValue 1 8, RelocatableValue 1 4), (RelocatableValue 1 9, RelocatableValue 0 20),
      (RelocatableValue 0 18, IntValue 5), (RelocatableValue 0 19, IntValue 7)]"

definition example_run_context :: run_context where
  "example_run_context =
     \<lparr>memory = example_call_memory, pc = RelocatableValue 0 30, ap = RelocatableValue 1 12,
      fp = RelocatableValue 1 10, prime = 17\<rparr>"

text \<open>
  A host over opaque objects that are natural numbers. Compiled code is the length of its
  source: code \<open>4\<close> writes \<open>7\<close> at \<open>(1,0)\<close> and sets the skip flag, code \<open>5\<close> raises, code
  \<open>6\<close> assigns \<open>(0,2)\<close> to the pc of the run context and sets the skip flag, code \<open>7\<close> deletes
  the name \<^verbatim>\<open>ids\<close> and sets the skip flag, any other code does nothing. Rule \<open>0\<close> never deduces, rule \<open>1\<close> deduces \<open>42\<close> at \<open>(2,5)\<close>, rule
  \<open>2\<close> deduces \<open>43\<close> everywhere, any other rule raises. No instruction can be decoded.
\<close>

definition example_host :: "nat host" where
  "example_host =
     \<lparr>compile = (\<lambda>source hint_id.
                   if source = ''syntax error'' then Inl ''invalid syntax''
                   else Inr (length source)),
      exec_code = (\<lambda>c globals v.
                   if c = 4 then [MemoryWrite (RelocatableValue 1 0) (IntValue 7),
                                  SetSkipInstructionExecution True]
                   else if c = 5 then [Raise ''second hint'']
                   else if c = 6 then [SetPc (RelocatableValue 0 2),
                                       SetSkipInstructionExecution True]
                   else if c = 7 then [DelLocal ''ids'', SetSkipInstructionExecution True]
                   else []),
      call_rule = (\<lambda>rule v addr args.
                   if rule = 0 then Inr None
                   else if rule = 1
                   then (if addr = RelocatableValue 2 5 then Inr (Some (IntValue 42)) else Inr None)
                   else if rule = 2 then Inr (Some (IntValue 43))
                   else Inl (HostException ''rule raised'')),
      call_validation_rule = (\<lambda>rule mem addr args. Inr [addr]),
      check_eq = (\<lambda>v a b. False),
      decode_current_instruction = (\<lambda>v. Inl (HostException ''no instruction'')),
      run_instruction = (\<lambda>instruction v. Inl (HostException ''no instruction''))\<rparr>"

definition example_hint0 :: "nat cairo_hint" where
  "example_hint0 = \<lparr>code = ''skip'', accessible_scopes = 0, flow_tracking_data = 0\<rparr>"

definition example_hint1 :: "nat cairo_hint" where
  "example_hint1 = \<lparr>code = ''fail!'', accessible_scopes = 0, flow_tracking_data = 1\<rparr>"

definition example_program :: "nat program" where
  "example_program =
     \<lparr>program.prime = 17, program.hints = [(0, [example_hint0, example_hint1])], identifiers = 0,
      reference_manager = 0, debug_info = None\<rparr>"

definition example_initial_context :: run_context where
  "example_initial_context =
     \<lparr>memory = [], pc = RelocatableValue 0 0, ap = RelocatableValue 1 0,
      fp = RelocatableValue 1 0, run_context.prime = 17\<rparr>"

definition example_compiled0 :: "nat compiled_hint" where
  "example_compiled0 =
     \<lparr>compiled = 4,
      hint_consts = \<lparr>closure_prime = 17, closure_program = example_program,
                     closure_hint = example_hint0\<rparr>\<rparr>"

definition example_compiled1 :: "nat compiled_hint" where
  "example_compiled1 =
     \<lparr>compiled = 5,
      hint_consts = \<lparr>closure_prime = 17, closure_program = example_program,
                     closure_hint = example_hint1\<rparr>\<rparr>"

text \<open>The machine the constructor builds for this program, with one hint local, one builtin
  runner and the given user static locals.\<close>

definition example_vm_with :: "nat scope \<Rightarrow> nat vm" where
  "example_vm_with user_static_locals =
     \<lparr>run_context = example_initial_context,
      prime = 17,
      builtin_runners = [(''output_builtin'', Opaque 9)],
      exec_scopes = [[(''n'', Value (IntValue 3)), (''output_builtin'', Opaque 9)]],
      hints = [(RelocatableValue 0 0, [example_compiled0, example_compiled1])],
      hint_pc_and_index = [(0, (RelocatableValue 0 0, 0)), (1, (RelocatableValue 0 0, 1))],
      instruction_debug_info = [],
      debug_file_contents = [],
      program = FullProgram example_program,
      validated_memory = \<lparr>validation_rules = [], validated_addresses = []\<rparr>,
      auto_deduction = [],
      static_locals = dict_update user_static_locals (builtin_static_locals 17),
      skip_instruction_execution = False,
      current_step = 0,
      trace = []\<rparr>"

definition example_vm :: "nat vm" where
  "example_vm = example_vm_with []"

text \<open>The same machine with two deduction rules on segment \<open>2\<close>, and with \<open>42\<close> written at
  \<open>(2,5)\<close>.\<close>

definition example_vm_rules :: "nat vm" where
  "example_vm_rules = add_auto_deduction_rule 2 1 [] (add_auto_deduction_rule 2 0 [] example_vm)"

definition example_vm_deduced :: "nat vm" where
  "example_vm_deduced =
     example_vm_rules\<lparr>run_context :=
        example_initial_context\<lparr>memory := [(RelocatableValue 2 5, IntValue 42)]\<rparr>\<rparr>"

text \<open>The machine with \<open>42\<close> at \<open>(2,5)\<close> after a third rule, which deduces \<open>43\<close>, is
  registered on segment \<open>2\<close>.\<close>

definition example_vm_mismatch :: "nat vm" where
  "example_vm_mismatch = add_auto_deduction_rule 2 2 [] example_vm_deduced"

text \<open>The machine the constructor builds when the user's static locals define the name
  \<^verbatim>\<open>pc\<close>.\<close>

definition example_vm_shadowed :: "nat vm" where
  "example_vm_shadowed = example_vm_with [(''pc'', Value (IntValue 0))]"

text \<open>The state the first hint of the program leaves the constructed machine in: \<open>7\<close> is
  written at \<open>(1,0)\<close>, the skip flag is set, and the main scope holds the names of the step
  (without \<^verbatim>\<open>ids\<close> and \<^verbatim>\<open>memory\<close>, which the step deletes), the static locals and the
  builtins.\<close>

definition example_vm_skipped :: "nat vm" where
  "example_vm_skipped =
     example_vm
       \<lparr>run_context := example_initial_context\<lparr>memory := [(RelocatableValue 1 0, IntValue 7)]\<rparr>,
        exec_scopes :=
          [[(''n'', Value (IntValue 3)), (''output_builtin'', Opaque 9),
            (''ap'', Value (RelocatableValue 1 0)),
            (''fp'', Value (RelocatableValue 1 0)),
            (''pc'', Value (RelocatableValue 0 0)),
            (''current_step'', Value (IntValue 0)),
            (''vm_load_program'', BoundMethod ''load_program''),
            (''vm_enter_scope'', BoundMethod ''enter_scope''),
            (''vm_exit_scope'', BoundMethod ''exit_scope'')] @ builtin_static_locals 17
           @ [(''__builtins__'', BuiltinsModule)]],
        skip_instruction_execution := True\<rparr>"

text \<open>A host that runs hints as the first one does, but decodes an instruction at every pc.\<close>

definition example_host_decoding :: "nat host" where
  "example_host_decoding =
     example_host\<lparr>decode_current_instruction := (\<lambda>v. Inr 0),
                  run_instruction := (\<lambda>instruction v.
                    Inr \<lparr>writes = [], next_pc = RelocatableValue 0 1,
                         next_ap = RelocatableValue 1 1, next_fp = RelocatableValue 1 0\<rparr>)\<rparr>"

text \<open>The machine with \<open>42\<close> at \<open>(2,5)\<close> and the rules \<open>0\<close>, \<open>1\<close>, \<open>3\<close>, \<open>2\<close> on segment \<open>2\<close>:
  rule \<open>3\<close> raises, rule \<open>2\<close> deduces \<open>43\<close>.\<close>

definition example_vm_raising :: "nat vm" where
  "example_vm_raising =
     add_auto_deduction_rule 2 2 [] (add_auto_deduction_rule 2 3 [] example_vm_deduced)"

text \<open>A program with a single hint of the given source, and the machine the constructor builds
  for it.\<close>

definition example_program_with :: "string \<Rightarrow> nat program" where
  "example_program_with source =
     \<lparr>program.prime = 17,
      program.hints = [(0, [\<lparr>code = source, accessible_scopes = 0, flow_tracking_data = 0\<rparr>])],
      identifiers = 0, reference_manager = 0, debug_info = None\<rparr>"

definition example_vm_hint :: "string \<Rightarrow> nat vm" where
  "example_vm_hint source =
     example_vm
       \<lparr>hints :=
          [(RelocatableValue 0 0,
            [\<lparr>compiled = length source,
              hint_consts =
                \<lparr>closure_prime = 17, closure_program = example_program_with source,
                 closure_hint = \<lparr>code = source, accessible_scopes = 0,
                                  flow_tracking_data = 0\<rparr>\<rparr>\<rparr>])],
        hint_pc_and_index := [(0, (RelocatableValue 0 0, 0))],
        program := FullProgram (example_program_with source)\<rparr>"

text \<open>A host whose hints store the value they find bound to \<^verbatim>\<open>pc\<close> at \<open>(1,0)\<close> and set the
  skip flag.\<close>

definition example_probe_host :: "nat host" where
  "example_probe_host =
     example_host
       \<lparr>exec_code := (\<lambda>c globals v.
          case map_of globals ''pc'' of
            Some (Value x) \<Rightarrow> [MemoryWrite (RelocatableValue 1 0) x,
                               SetSkipInstructionExecution True]
          | _ \<Rightarrow> [Raise ''pc is not bound to a value''])\<rparr>"

text \<open>Executing code as the first host does, but raising when \<^verbatim>\<open>ids\<close> or \<^verbatim>\<open>PRIME\<close> is not
  bound in the dictionary.\<close>

definition example_strict_exec :: "nat \<Rightarrow> nat scope \<Rightarrow> nat vm \<Rightarrow> nat hint_action list" where
  "example_strict_exec c globals v =
     (if map_of globals ''ids'' = None \<or> map_of globals ''PRIME'' = None
      then [Raise ''unbound name'']
      else exec_code example_host c globals v)"

section \<open>Range-check offset extraction: properties\<close>

lemma py_min_Min: "xs \<noteq> [] \<Longrightarrow> py_min xs = Inr (Min (set xs))"
  by (cases xs) (simp_all add: Min.set_eq_fold del: set_simps)

lemma py_max_Max: "xs \<noteq> [] \<Longrightarrow> py_max xs = Inr (Max (set xs))"
  by (cases xs) (simp_all add: Max.set_eq_fold del: set_simps)

lemma collect_offsets_decodes:
  "\<forall>entry \<in> set tr. entry_decodes d mem entry \<Longrightarrow>
   collect_offsets d mem tr acc = Inr (acc @ concat (map (entry_offsets d mem) tr))"
proof (induction tr arbitrary: acc)
  case Nil
  then show ?case by simp
next
  case (Cons entry rest)
  from Cons.prems have dec: "entry_decodes d mem entry" by simp
  then obtain w fl a b c where w: "map_of mem (trace_entry.pc entry) = Some w"
      and dw: "d w = Inr (fl, a, b, c)"
    by (auto simp: entry_decodes_def memory_get_def split: option.splits sum.splits)
  from Cons.prems have rest: "\<forall>entry \<in> set rest. entry_decodes d mem entry" by simp
  show ?case
    using w dw Cons.IH [OF rest]
    by (simp add: memory_getitem_def entry_offsets_def memory_get_def)
qed

lemma entry_offsets_nonempty:
  "entry_decodes d mem entry \<Longrightarrow> entry_offsets d mem entry \<noteq> []"
  by (auto simp: entry_decodes_def entry_offsets_def split: option.splits sum.splits)

text \<open>
  Claim C8. For a non-empty trace whose every entry has an encoded instruction in memory that
  decodes, \<^verbatim>\<open>get_perm_range_check_limits\<close> returns the least and the greatest of all the
  offsets decoded along the trace; when the decoded offsets are \<open>(1,2,3)\<close>, \<open>(0,5,2)\<close>,
  \<open>(4,4,4)\<close> the result is \<open>(0, 5)\<close>.
\<close>

theorem perm_range_check_limits_min_max:
  assumes "tr \<noteq> []" and "\<forall>entry \<in> set tr. entry_decodes d mem entry"
  shows "get_perm_range_check_limits d tr mem =
           Inr (Min (set (concat (map (entry_offsets d mem) tr))),
                Max (set (concat (map (entry_offsets d mem) tr))))
         \<and> (map (entry_offsets d mem) tr = [[1, 2, 3], [0, 5, 2], [4, 4, 4]]
              \<longrightarrow> get_perm_range_check_limits d tr mem = Inr (0, 5))"
proof -
  obtain e rest where tr: "tr = e # rest" using assms(1) by (cases tr) auto
  with assms(2) have "entry_offsets d mem e \<noteq> []" by (simp add: entry_offsets_nonempty)
  with tr have ne: "concat (map (entry_offsets d mem) tr) \<noteq> []" by simp
  have main: "get_perm_range_check_limits d tr mem =
           Inr (Min (set (concat (map (entry_offsets d mem) tr))),
                Max (set (concat (map (entry_offsets d mem) tr))))"
    unfolding get_perm_range_check_limits_def
    using collect_offsets_decodes [OF assms(2), of "[]"] py_min_Min [OF ne] py_max_Max [OF ne]
    by simp
  have "get_perm_range_check_limits d tr mem = Inr (0, 5)"
    if "map (entry_offsets d mem) tr = [[1, 2, 3], [0, 5, 2], [4, 4, 4]]"
    using main that by simp
  with main show ?thesis by blast
qed

theorem perm_range_check_limits_min_max_witness:
  "example_trace \<noteq> []
   \<and> list_all (entry_decodes example_decoder example_program_memory) example_trace
   \<and> map (entry_offsets example_decoder example_program_memory) example_trace
        = [[1, 2, 3], [0, 5, 2], [4, 4, 4]]
   \<and> get_perm_range_check_limits example_decoder example_trace example_program_memory
        = Inr (0, 5)"
proof -
  have ne: "example_trace \<noteq> []" by (simp add: example_trace_def)
  have dec: "\<forall>entry \<in> set example_trace.
               entry_decodes example_decoder example_program_memory entry"
    by (simp add: example_trace_def entry_decodes_def example_decoder_def
        example_program_memory_def memory_get_def)
  have offs: "map (entry_offsets example_decoder example_program_memory) example_trace
        = [[1, 2, 3], [0, 5, 2], [4, 4, 4]]"
    by (simp add: example_trace_def entry_offsets_def example_decoder_def
        example_program_memory_def memory_get_def)
  from dec have dec': "list_all (entry_decodes example_decoder example_program_memory)
                         example_trace"
    by (simp add: list_all_iff)
  from perm_range_check_limits_min_max [OF ne dec] offs ne dec' show ?thesis by blast
qed

text \<open>
  Claim C10. On the empty trace \<^verbatim>\<open>get_perm_range_check_limits\<close> returns no pair: no offset
  is collected and \<^verbatim>\<open>min\<close> of the empty list raises \<^verbatim>\<open>ValueError\<close>, whatever the memory and
  the decoder.
\<close>

theorem perm_range_check_limits_empty_trace:
  "get_perm_range_check_limits d [] mem = Inl (ValueError ''min() arg is an empty sequence'')"
  by (simp add: get_perm_range_check_limits_def)

section \<open>Storage: properties\<close>

text \<open>
  Claim C9, as amended. On every storage of the repository, for every key and value,
  \<^verbatim>\<open>setnx_value\<close> raises \<^verbatim>\<open>NotImplementedError\<close> naming the storage's class: it returns no
  boolean and inserts nothing, whether or not the key is absent.
\<close>

theorem setnx_value_not_implemented:
  "setnx_value s key val =
     Inl (NotImplementedError
            (case s of
               DictStorage d \<Rightarrow> ''DictStorage does not implement setnx_value''
             | CachedStorage inner c n a \<Rightarrow> ''CachedStorage does not implement setnx_value''))"
  by (cases s) (simp_all add: setnx_value_def)

text \<open>The claim as the specification words it fails on an empty \<^verbatim>\<open>DictStorage\<close>: the key is
  absent, so the value should be inserted and \<^verbatim>\<open>True\<close> returned, but the call raises.\<close>

theorem setnx_value_inserts_counterexample:
  "setnx_value_spec [] ''key'' ''value'' = Inr (True, DictStorage [(''key'', ''value'')])
   \<and> setnx_value (DictStorage []) ''key'' ''value'' \<noteq> setnx_value_spec [] ''key'' ''value''"
  by (simp add: setnx_value_def setnx_value_spec_def dict_get_value_def dict_set_value_def)

section \<open>Traceback reconstruction: properties\<close>

text \<open>The entries collected before a frame is walked stay in front of what the rest of the
  walk collects.\<close>

lemma traceback_loop_prefix:
  "traceback_loop is_call mem n cur_fp entries = entries @ traceback_loop is_call mem n cur_fp []"
proof (induction n arbitrary: cur_fp entries)
  case 0
  then show ?case by simp
next
  case (Suc n)
  show ?case
    using Suc.IH [of _ "entries @ [_]"] Suc.IH [of _ "[_]"]
    by (auto simp: Let_def split: option.splits)
qed

text \<open>
  Claim C6. At a walked frame (the saved frame pointer and the return pc are in memory and the
  frame is not the outermost one): if the word before the return pc is present and is a call
  without immediate, the recorded call pc is \<open>ret_pc - 1\<close>, whether or not the two words before
  the return pc also encode a call with immediate; if that test fails and the two words
  together are a call with immediate, the recorded call pc is \<open>ret_pc - 2\<close>; if neither holds the
  walk stops with the entries collected so far. The function returns the collected entries
  reversed.
\<close>

theorem traceback_call_pc:
  assumes "memory_get mem (mr_sub cur_fp 2) = Some prev_fp"
    and "prev_fp \<noteq> cur_fp"
    and "memory_get mem (mr_sub cur_fp 1) = Some ret_pc"
  shows "(\<forall>i1. memory_get mem (mr_sub ret_pc 1) = Some i1 \<and> is_call i1 None \<longrightarrow>
            traceback_loop is_call mem (Suc n) cur_fp entries =
              traceback_loop is_call mem n prev_fp (entries @ [mr_sub ret_pc 1]))
       \<and> (\<forall>i0 i1. memory_get mem (mr_sub ret_pc 2) = Some i0
              \<and> memory_get mem (mr_sub ret_pc 1) = Some i1
              \<and> \<not> is_call i1 None \<and> is_call i0 (Some i1) \<longrightarrow>
            traceback_loop is_call mem (Suc n) cur_fp entries =
              traceback_loop is_call mem n prev_fp (entries @ [mr_sub ret_pc 2]))
       \<and> ((\<forall>i1. memory_get mem (mr_sub ret_pc 1) = Some i1 \<longrightarrow>
              \<not> is_call i1 None
              \<and> (\<forall>i0. memory_get mem (mr_sub ret_pc 2) = Some i0 \<longrightarrow> \<not> is_call i0 (Some i1))) \<longrightarrow>
            traceback_loop is_call mem (Suc n) cur_fp entries = entries)
       \<and> get_traceback_entries is_call rc =
           rev (traceback_loop is_call (run_context.memory rc) 20 (run_context.fp rc) [])"
  using assms by (auto simp: get_traceback_entries_def MAX_TRACEBACK_ENTRIES_def Let_def)

theorem traceback_call_pc_witness:
  "memory_get example_call_memory (mr_sub (RelocatableValue 1 10) 2) = Some (RelocatableValue 1 4)
   \<and> RelocatableValue 1 4 \<noteq> RelocatableValue 1 10
   \<and> memory_get example_call_memory (mr_sub (RelocatableValue 1 10) 1)
       = Some (RelocatableValue 0 20)
   \<and> memory_get example_call_memory (mr_sub (RelocatableValue 0 20) 1) = Some (IntValue 7)
   \<and> example_is_call (IntValue 7) None
   \<and> example_is_call (IntValue 5) (Some (IntValue 7))
   \<and> traceback_loop example_is_call example_call_memory (Suc 19) (RelocatableValue 1 10) []
       = traceback_loop example_is_call example_call_memory 19 (RelocatableValue 1 4)
           [RelocatableValue 0 19]
   \<and> get_traceback_entries example_is_call example_run_context = [RelocatableValue 0 19]"
proof -
  have h1: "memory_get example_call_memory (mr_sub (RelocatableValue 1 10) 2)
              = Some (RelocatableValue 1 4)"
    by (simp add: example_call_memory_def memory_get_def)
  have h2: "RelocatableValue 1 4 \<noteq> RelocatableValue 1 10" by simp
  have h3: "memory_get example_call_memory (mr_sub (RelocatableValue 1 10) 1)
              = Some (RelocatableValue 0 20)"
    by (simp add: example_call_memory_def memory_get_def)
  have h4: "memory_get example_call_memory (mr_sub (RelocatableValue 0 20) 1) = Some (IntValue 7)"
    by (simp add: example_call_memory_def memory_get_def)
  have h5: "example_is_call (IntValue 7) None" by (simp add: example_is_call_def)
  have h6: "example_is_call (IntValue 5) (Some (IntValue 7))" by (simp add: example_is_call_def)
  have stop: "traceback_loop example_is_call example_call_memory 19 (RelocatableValue 1 4)
                [RelocatableValue 0 19] = [RelocatableValue 0 19]"
    by (simp add: eval_nat_numeral example_call_memory_def memory_get_def)
  have step: "traceback_loop example_is_call example_call_memory (Suc 19) (RelocatableValue 1 10) []
       = traceback_loop example_is_call example_call_memory 19 (RelocatableValue 1 4)
           [RelocatableValue 0 19]"
    using traceback_call_pc [OF h1 h2 h3, of example_is_call 19 "[]" example_run_context] h4 h5
    by simp
  have top: "get_traceback_entries example_is_call example_run_context = [RelocatableValue 0 19]"
    using traceback_call_pc [OF h1 h2 h3, of example_is_call 19 "[]" example_run_context] step stop
    by (simp add: example_run_context_def)
  from h1 h2 h3 h4 h5 h6 step top show ?thesis by blast
qed

section \<open>Frame properties of the operations\<close>

lemma frame_eq_refl: "frame_eq v v"
  by (simp add: frame_eq_def)

lemma frame_eq_trans: "frame_eq a b \<Longrightarrow> frame_eq b c \<Longrightarrow> frame_eq a c"
  by (simp add: frame_eq_def)

lemma compile_hints_frame:
  "compile_hints h prog hint_pc v idx hs acc = Inr (cs, v') \<Longrightarrow>
   frame_eq v v' \<and> exec_scopes v' = exec_scopes v \<and> run_context v' = run_context v
   \<and> vm.hints v' = vm.hints v \<and> skip_instruction_execution v' = skip_instruction_execution v"
proof (induction hs arbitrary: v idx acc)
  case Nil
  then show ?case by (simp add: frame_eq_def)
next
  case (Cons hint rest)
  from Cons.prems show ?case
    by (auto simp: Let_def frame_eq_def split: sum.splits dest!: Cons.IH)
qed

lemma load_hints_loop_frame:
  "load_hints_loop h prog base v items = Inr v' \<Longrightarrow>
   frame_eq v v' \<and> exec_scopes v' = exec_scopes v \<and> run_context v' = run_context v
   \<and> skip_instruction_execution v' = skip_instruction_execution v"
proof (induction items arbitrary: v)
  case Nil
  then show ?case by (simp add: frame_eq_def)
next
  case (Cons item rest)
  obtain off hs where item: "item = (off, hs)" by (cases item)
  from Cons.prems item obtain cs v1 where
    c: "compile_hints h prog (mr_add base off) v 0 hs [] = Inr (cs, v1)"
    and l: "load_hints_loop h prog base
              (v1\<lparr>hints := AList.update (mr_add base off) cs (vm.hints v1)\<rparr>) rest = Inr v'"
    by (auto split: sum.splits)
  from compile_hints_frame [OF c] Cons.IH [OF l] show ?case
    by (simp add: frame_eq_def)
qed

lemma load_program_frame:
  "load_program h prog base v = Inr v' \<Longrightarrow>
   frame_eq v v' \<and> exec_scopes v' = exec_scopes v \<and> run_context v' = run_context v
   \<and> skip_instruction_execution v' = skip_instruction_execution v"
  by (auto simp: load_program_def load_hints_def load_debug_info_def frame_eq_def
      split: if_splits option.splits dest!: load_hints_loop_frame)

lemma validate_memory_cell_frame:
  "validate_memory_cell h v addr = Inr v' \<Longrightarrow>
   frame_eq v v' \<and> exec_scopes v' = exec_scopes v \<and> run_context v' = run_context v
   \<and> skip_instruction_execution v' = skip_instruction_execution v"
  by (auto simp: validate_memory_cell_def frame_eq_def split: if_splits sum.splits)

lemma validated_memory_setitem_frame:
  "validated_memory_setitem h v addr val = Inr v' \<Longrightarrow>
   frame_eq v v' \<and> exec_scopes v' = exec_scopes v
   \<and> skip_instruction_execution v' = skip_instruction_execution v"
  by (auto simp: validated_memory_setitem_def frame_eq_def split: sum.splits
      dest!: validate_memory_cell_frame)

lemma validate_cells_frame:
  "validate_cells h v addrs = Inr v' \<Longrightarrow>
   frame_eq v v' \<and> exec_scopes v' = exec_scopes v"
proof (induction addrs arbitrary: v)
  case Nil
  then show ?case by (simp add: frame_eq_def)
next
  case (Cons a rest)
  from Cons.prems show ?case
    by (auto simp: frame_eq_def split: sum.splits dest!: Cons.IH validate_memory_cell_frame)
qed

lemma write_all_frame:
  "write_all h v ws = Inr v' \<Longrightarrow> frame_eq v v' \<and> exec_scopes v' = exec_scopes v"
proof (induction ws arbitrary: v)
  case Nil
  then show ?case by (simp add: frame_eq_def)
next
  case (Cons w rest)
  obtain a x where w: "w = (a, x)" by (cases w)
  from Cons.prems w show ?case
    by (auto simp: frame_eq_def split: sum.splits dest!: Cons.IH validated_memory_setitem_frame)
qed

lemma static_eq_refl: "static_eq v v"
  by (simp add: static_eq_def)

lemma static_eq_trans: "static_eq a b \<Longrightarrow> static_eq b c \<Longrightarrow> static_eq a c"
  by (simp add: static_eq_def)

lemma frame_eq_static: "frame_eq v v' \<Longrightarrow> static_eq v v'"
  by (simp add: frame_eq_def static_eq_def)

lemma run_action_frame:
  "run_action h i a (v, l, s) = Inr (v', l', s') \<Longrightarrow>
   static_eq v v' \<and> (keeps_registers a \<longrightarrow> frame_eq v v')"
  by (cases a)
    (auto simp: frame_eq_def static_eq_def enter_scope_def exit_scope_def
      split: if_splits sum.splits
      dest!: validated_memory_setitem_frame load_program_frame)

lemma exit_scope_scopes:
  assumes "exit_scope v = Inr v'"
  shows "exec_scopes v' \<noteq> [] \<and> length (exec_scopes v') = length (exec_scopes v) - 1"
proof -
  from assms have len: "length (exec_scopes v) > 1"
    and v': "exec_scopes v' = butlast (exec_scopes v)"
    by (auto simp: exit_scope_def split: if_splits)
  have "butlast (exec_scopes v) \<noteq> []"
  proof
    assume "butlast (exec_scopes v) = []"
    then have "length (butlast (exec_scopes v)) = 0" by simp
    then have "length (exec_scopes v) - 1 = 0" by (simp only: length_butlast)
    with len show False by simp
  qed
  with v' show ?thesis by simp
qed

lemma run_action_scopes:
  "run_action h i a (v, l, s) = Inr (v', l', s') \<Longrightarrow> exec_scopes v \<noteq> [] \<Longrightarrow>
   exec_scopes v' \<noteq> []"
  by (cases a)
    (auto simp: enter_scope_def split: if_splits sum.splits
      dest!: validated_memory_setitem_frame load_program_frame exit_scope_scopes)

lemma run_actions_frame:
  "run_actions h i as st = Inr st' \<Longrightarrow>
   static_eq (fst st) (fst st')
   \<and> (list_all keeps_registers as \<longrightarrow> frame_eq (fst st) (fst st'))"
proof (induction as arbitrary: st)
  case Nil
  then show ?case by (simp add: frame_eq_refl static_eq_refl)
next
  case (Cons a rest)
  from Cons.prems obtain st1 where a: "run_action h i a st = Inr st1"
    and r: "run_actions h i rest st1 = Inr st'"
    by (auto split: sum.splits)
  obtain v l s where st: "st = (v, l, s)" by (cases st)
  obtain v1 l1 s1 where st1: "st1 = (v1, l1, s1)" by (cases st1)
  from run_action_frame [of h i a v l s v1 l1 s1] a st st1 Cons.IH [OF r]
  show ?case by (auto intro: frame_eq_trans static_eq_trans)
qed

lemma run_actions_scopes:
  "run_actions h i as st = Inr st' \<Longrightarrow> exec_scopes (fst st) \<noteq> [] \<Longrightarrow>
   exec_scopes (fst st') \<noteq> []"
proof (induction as arbitrary: st)
  case Nil
  then show ?case by simp
next
  case (Cons a rest)
  from Cons.prems obtain st1 where a: "run_action h i a st = Inr st1"
    and r: "run_actions h i rest st1 = Inr st'"
    by (auto split: sum.splits)
  obtain v l s where st: "st = (v, l, s)" by (cases st)
  obtain v1 l1 s1 where st1: "st1 = (v1, l1, s1)" by (cases st1)
  from run_action_scopes [of h i a v l s v1 l1 s1] a st st1 Cons.prems(2)
  have "exec_scopes (fst st1) \<noteq> []" by simp
  from Cons.IH [OF r this] show ?case .
qed

lemma hint_body_frame:
  assumes "hint_body h v idx hint = Inr v'"
  shows "static_eq v v' \<and> exec_scopes v' \<noteq> []
       \<and> (list_all keeps_registers (exec_code h (compiled hint) (hint_globals v hint) v)
            \<longrightarrow> frame_eq v v')"
proof -
  from assms have ne: "exec_scopes v \<noteq> []"
    by (auto simp: hint_body_def split: if_splits)
  from assms ne obtain v1 l1 s1 l3 where
    ex: "run_actions h (length (exec_scopes v) - 1)
           (exec_code h (compiled hint) (hint_globals v hint) v)
           (v, hint_globals v hint, True) = Inr (v1, l1, s1)"
    and v': "v' = (if s1 then v1\<lparr>exec_scopes :=
                     (exec_scopes v1)[length (exec_scopes v) - 1 := l3]\<rparr> else v1)"
    by (auto simp: hint_body_def exec_hint_def hint_globals_def
        split: if_splits sum.splits prod.splits)
  from run_actions_frame [OF ex] run_actions_scopes [OF ex] ne v'
  show ?thesis by (auto simp: frame_eq_def static_eq_def)
qed

lemma decode_and_run_scopes:
  "decode_and_run h v = Inr v' \<Longrightarrow>
   exec_scopes v' = exec_scopes v \<and> static_locals v' = static_locals v
   \<and> program v' = program v \<and> vm.prime v' = vm.prime v"
  by (auto simp: decode_and_run_def run_instruction_effect_def frame_eq_def
      split: sum.splits dest!: write_all_frame)

lemma deduce_loop_frame:
  "deduce_loop h v addr rules = Inr (res, v') \<Longrightarrow> frame_eq v v' \<and> exec_scopes v' = exec_scopes v"
proof (induction rules)
  case Nil
  then show ?case by (simp add: frame_eq_def)
next
  case (Cons ra rest)
  obtain r a where ra: "ra = (r, a)" by (cases ra)
  from Cons.prems ra show ?case
    by (auto simp: frame_eq_def split: sum.splits option.splits
        dest!: Cons.IH validated_memory_setitem_frame)
qed

lemma deduce_memory_cell_frame:
  "deduce_memory_cell h v addr = Inr (res, v') \<Longrightarrow> frame_eq v v' \<and> exec_scopes v' = exec_scopes v"
  by (auto simp: deduce_memory_cell_def frame_eq_refl split: if_splits dest!: deduce_loop_frame)

lemma vm_init_state:
  assumes "vm_init h prog rc hint_locals user_static_locals runners base = Inr v"
  shows "exec_scopes v = [dict_update hint_locals runners]
       \<and> auto_deduction v = []
       \<and> program v = prog \<and> vm.prime v = program_prime prog
       \<and> static_locals v =
           dict_update (case user_static_locals of None \<Rightarrow> [] | Some l \<Rightarrow> dict_copy l)
             (builtin_static_locals (program_prime prog))"
proof (cases prog)
  case (StrippedProgram n)
  with assms show ?thesis by (auto simp: vm_init_def Let_def enter_scope_def)
next
  case (FullProgram p)
  with assms show ?thesis
    by (auto simp: vm_init_def Let_def enter_scope_def frame_eq_def split: sum.splits
        dest!: load_program_frame)
qed

section \<open>The concrete machine\<close>

lemmas example_defs =
  example_vm_def example_vm_with_def example_host_def example_program_def
  example_initial_context_def example_hint0_def example_hint1_def example_compiled0_def
  example_compiled1_def example_vm_rules_def example_vm_deduced_def example_vm_mismatch_def
  example_vm_shadowed_def example_vm_skipped_def example_host_decoding_def
  example_vm_raising_def example_program_with_def example_vm_hint_def example_probe_host_def
  example_strict_exec_def
  builtin_static_locals_def dict_update_def dict_copy_def dict_get_default_def
  add_auto_deduction_rule_def

lemma example_vm_init:
  "vm_init example_host (FullProgram example_program) example_initial_context
     [(''n'', Value (IntValue 3))] None [(''output_builtin'', Opaque 9)] (RelocatableValue 0 0)
   = Inr example_vm"
  by (simp add: vm_init_def enter_scope_def load_program_def load_debug_info_def load_hints_def
      compile_hint_def Let_def example_defs)

section \<open>Auto-deduction: properties\<close>

lemma validate_memory_cell_memory:
  "validate_memory_cell h v addr = Inr v' \<Longrightarrow> run_context v' = run_context v"
  by (auto simp: validate_memory_cell_def split: if_splits sum.splits)

lemma memory_setitem_stored:
  "memory_setitem m addr val = Inr m' \<Longrightarrow> map_of m' addr = Some val"
  by (auto simp: memory_setitem_def map_add_def split: option.splits if_splits)

lemma validated_memory_setitem_stored:
  assumes "validated_memory_setitem h v addr val = Inr v'"
  shows "memory_get (run_context.memory (run_context v')) addr = Some val"
proof -
  from assms obtain m' where m: "memory_setitem (run_context.memory (run_context v)) addr val = Inr m'"
    and vc: "validate_memory_cell h (v\<lparr>run_context := (run_context v)\<lparr>memory := m'\<rparr>\<rparr>) addr = Inr v'"
    by (auto simp: validated_memory_setitem_def split: sum.splits)
  from validate_memory_cell_memory [OF vc] memory_setitem_stored [OF m]
  show ?thesis by (simp add: memory_get_def)
qed

lemma deduce_loop_skip:
  "list_all (\<lambda>(r, a). call_rule h r v addr a = Inr None) skipped \<Longrightarrow>
   deduce_loop h v addr (skipped @ rest) = deduce_loop h v addr rest"
  by (induction skipped) auto

lemma add_auto_deduction_rule_appends:
  "dict_get_default (auto_deduction (add_auto_deduction_rule seg rule args v)) seg' [] =
     (if seg' = seg then dict_get_default (auto_deduction v) seg [] @ [(rule, args)]
      else dict_get_default (auto_deduction v) seg' [])"
  by (simp add: add_auto_deduction_rule_def dict_get_default_def update_conv')

text \<open>
  Claim C1. \<^verbatim>\<open>deduce_memory_cell\<close> returns none and leaves the machine alone for an address
  that is not a relocatable, whatever the host's rules do (none is called). For a relocatable
  it goes through the rules of the segment in the order of their registration: when the rules
  before \<open>rule\<close> return none and \<open>rule\<close> returns \<open>val\<close>, the value is written through the
  validated memory at the address and returned (the write's error, if it fails, is the
  result); when every rule returns none, so does the function. A newly registered rule goes
  to the end of its segment's list.
\<close>

theorem deduce_memory_cell_first_rule:
  "(\<not> is_relocatable addr \<longrightarrow> deduce_memory_cell h v addr = Inr (None, v))
   \<and> (is_relocatable addr
        \<and> dict_get_default (auto_deduction v) (segment_index addr) [] = skipped @ (rule, args) # rest
        \<and> list_all (\<lambda>(r, a). call_rule h r v addr a = Inr None) skipped
        \<and> call_rule h rule v addr args = Inr (Some val) \<longrightarrow>
      (case validated_memory_setitem h v addr val of
         Inl e \<Rightarrow> deduce_memory_cell h v addr = Inl e
       | Inr v' \<Rightarrow> deduce_memory_cell h v addr = Inr (Some val, v')
            \<and> memory_get (run_context.memory (run_context v')) addr = Some val))
   \<and> (is_relocatable addr
        \<and> list_all (\<lambda>(r, a). call_rule h r v addr a = Inr None)
            (dict_get_default (auto_deduction v) (segment_index addr) []) \<longrightarrow>
      deduce_memory_cell h v addr = Inr (None, v))
   \<and> dict_get_default (auto_deduction (add_auto_deduction_rule seg new_rule new_args v)) seg [] =
       dict_get_default (auto_deduction v) seg [] @ [(new_rule, new_args)]"
proof (intro conjI impI)
  assume "\<not> is_relocatable addr"
  then show "deduce_memory_cell h v addr = Inr (None, v)" by (simp add: deduce_memory_cell_def)
next
  assume a: "is_relocatable addr
        \<and> dict_get_default (auto_deduction v) (segment_index addr) [] = skipped @ (rule, args) # rest
        \<and> list_all (\<lambda>(r, a). call_rule h r v addr a = Inr None) skipped
        \<and> call_rule h rule v addr args = Inr (Some val)"
  then have "deduce_memory_cell h v addr = deduce_loop h v addr ((rule, args) # rest)"
    by (simp add: deduce_memory_cell_def deduce_loop_skip)
  with a show "case validated_memory_setitem h v addr val of
         Inl e \<Rightarrow> deduce_memory_cell h v addr = Inl e
       | Inr v' \<Rightarrow> deduce_memory_cell h v addr = Inr (Some val, v')
            \<and> memory_get (run_context.memory (run_context v')) addr = Some val"
    by (auto split: sum.splits dest: validated_memory_setitem_stored)
next
  assume a: "is_relocatable addr
        \<and> list_all (\<lambda>(r, a). call_rule h r v addr a = Inr None)
            (dict_get_default (auto_deduction v) (segment_index addr) [])"
  then show "deduce_memory_cell h v addr = Inr (None, v)"
    using deduce_loop_skip [of h v addr "dict_get_default (auto_deduction v) (segment_index addr) []" "[]"]
    by (simp add: deduce_memory_cell_def)
next
  show "dict_get_default (auto_deduction (add_auto_deduction_rule seg new_rule new_args v)) seg [] =
       dict_get_default (auto_deduction v) seg [] @ [(new_rule, new_args)]"
    by (simp add: add_auto_deduction_rule_appends)
qed

theorem deduce_memory_cell_first_rule_witness:
  "\<not> is_relocatable (IntValue 3)
   \<and> deduce_memory_cell example_host example_vm_rules (IntValue 3) = Inr (None, example_vm_rules)
   \<and> is_relocatable (RelocatableValue 2 5)
   \<and> dict_get_default (auto_deduction example_vm_rules) (segment_index (RelocatableValue 2 5)) []
        = [(0, [])] @ (1, []) # []
   \<and> list_all (\<lambda>(r, a). call_rule example_host r example_vm_rules (RelocatableValue 2 5) a
                   = Inr None) [(0, [])]
   \<and> call_rule example_host 1 example_vm_rules (RelocatableValue 2 5) [] = Inr (Some (IntValue 42))
   \<and> validated_memory_setitem example_host example_vm_rules (RelocatableValue 2 5) (IntValue 42)
        = Inr example_vm_deduced
   \<and> deduce_memory_cell example_host example_vm_rules (RelocatableValue 2 5)
        = Inr (Some (IntValue 42), example_vm_deduced)
   \<and> memory_get (run_context.memory (run_context example_vm_deduced)) (RelocatableValue 2 5)
        = Some (IntValue 42)"
proof -
  have a: "\<not> is_relocatable (IntValue 3)" by simp
  have b: "is_relocatable (RelocatableValue 2 5)" by simp
  have c: "dict_get_default (auto_deduction example_vm_rules)
             (segment_index (RelocatableValue 2 5)) [] = [(0, [])] @ (1, []) # []"
    by (simp add: example_defs)
  have d: "list_all (\<lambda>(r, a). call_rule example_host r example_vm_rules (RelocatableValue 2 5) a
                   = Inr None) [(0, [])]"
    by (simp add: example_host_def)
  have e: "call_rule example_host 1 example_vm_rules (RelocatableValue 2 5) []
             = Inr (Some (IntValue 42))"
    by (simp add: example_host_def)
  have f: "validated_memory_setitem example_host example_vm_rules (RelocatableValue 2 5)
             (IntValue 42) = Inr example_vm_deduced"
    by (simp add: validated_memory_setitem_def validate_memory_cell_def memory_setitem_def
        example_defs)
  note inst = deduce_memory_cell_first_rule [where addr = "RelocatableValue 2 5"
      and h = example_host and v = example_vm_rules and skipped = "[(0, [])]" and rule = 1
      and args = "[]" and rest = "[]" and val = "IntValue 42"]
  from inst b c d e f
  have g: "deduce_memory_cell example_host example_vm_rules (RelocatableValue 2 5)
           = Inr (Some (IntValue 42), example_vm_deduced)
         \<and> memory_get (run_context.memory (run_context example_vm_deduced)) (RelocatableValue 2 5)
           = Some (IntValue 42)"
    by simp
  from deduce_memory_cell_first_rule [where addr = "IntValue 3" and h = example_host
      and v = example_vm_rules] a
  have h: "deduce_memory_cell example_host example_vm_rules (IntValue 3)
             = Inr (None, example_vm_rules)"
    by blast
  from a b c d e f g h show ?thesis by blast
qed

section \<open>End-of-run verifier: properties\<close>

lemma verify_rules_cases:
  assumes "map_of (run_context.memory (run_context v)) addr = Some cur"
    and "list_all (\<lambda>(rule, args). \<not> isl (call_rule h rule v addr args)) rules"
  shows "(verify_rules h v addr rules = Inr ()
           \<and> (\<forall>val. list_ex (\<lambda>(rule, args). call_rule h rule v addr args = Inr (Some val)) rules
                  \<longrightarrow> cur = val \<or> check_eq h v cur val))
       \<or> (\<exists>val. verify_rules h v addr rules = Inl (InconsistentAutoDeductionError addr cur val)
              \<and> list_ex (\<lambda>(rule, args). call_rule h rule v addr args = Inr (Some val)) rules
              \<and> cur \<noteq> val \<and> \<not> check_eq h v cur val)"
  using assms(2)
proof (induction rules)
  case Nil
  then show ?case by simp
next
  case (Cons ra rules)
  obtain rule args where ra: "ra = (rule, args)" by (cases ra)
  from Cons.prems ra obtain res where res: "call_rule h rule v addr args = Inr res"
    by (cases "call_rule h rule v addr args") auto
  from Cons.prems have rest: "list_all (\<lambda>(rule, args). \<not> isl (call_rule h rule v addr args)) rules"
    by simp
  note IH = Cons.IH [OF rest]
  show ?case
  proof (cases res)
    case None
    with res ra IH show ?thesis by auto
  next
    case (Some val)
    show ?thesis
    proof (cases "cur \<noteq> val \<and> \<not> check_eq h v cur val")
      case True
      with res ra Some assms(1) show ?thesis
        by (auto simp: validated_memory_getitem_def memory_getitem_def)
    next
      case False
      then have eq: "verify_rules h v addr (ra # rules) = verify_rules h v addr rules"
        using res ra Some assms(1)
        by (auto simp: validated_memory_getitem_def memory_getitem_def)
      from IH show ?thesis
      proof
        assume "verify_rules h v addr rules = Inr ()
           \<and> (\<forall>val. list_ex (\<lambda>(rule, args). call_rule h rule v addr args = Inr (Some val)) rules
                  \<longrightarrow> cur = val \<or> check_eq h v cur val)"
        with eq False res ra Some show ?thesis by auto
      next
        assume "\<exists>val. verify_rules h v addr rules = Inl (InconsistentAutoDeductionError addr cur val)
              \<and> list_ex (\<lambda>(rule, args). call_rule h rule v addr args = Inr (Some val)) rules
              \<and> cur \<noteq> val \<and> \<not> check_eq h v cur val"
        with eq show ?thesis by auto
      qed
    qed
  qed
qed

lemma verify_addresses_cases:
  assumes "set addrs \<subseteq> fst ` set (run_context.memory (run_context v))"
    and "list_all (\<lambda>addr. list_all (\<lambda>(rule, args). \<not> isl (call_rule h rule v addr args))
                        (segment_rules v addr)) (filter is_relocatable addrs)"
  shows "(verify_addresses h v addrs = Inr ()
           \<and> (\<forall>addr \<in> set addrs. \<forall>cur val. \<not> deduction_mismatch h v addr cur val))
       \<or> (\<exists>addr cur val. verify_addresses h v addrs = Inl (InconsistentAutoDeductionError addr cur val)
              \<and> deduction_mismatch h v addr cur val)"
  using assms
proof (induction addrs)
  case Nil
  then show ?case by simp
next
  case (Cons addr addrs)
  from Cons.prems have IH: "(verify_addresses h v addrs = Inr ()
           \<and> (\<forall>addr \<in> set addrs. \<forall>cur val. \<not> deduction_mismatch h v addr cur val))
       \<or> (\<exists>addr cur val. verify_addresses h v addrs = Inl (InconsistentAutoDeductionError addr cur val)
              \<and> deduction_mismatch h v addr cur val)"
    by (intro Cons.IH) (auto split: if_splits)
  show ?case
  proof (cases "is_relocatable addr")
    case False
    then have "\<forall>cur val. \<not> deduction_mismatch h v addr cur val"
      by (simp add: deduction_mismatch_def)
    with False IH show ?thesis by auto
  next
    case True
    from Cons.prems(1) obtain cur where cur: "map_of (run_context.memory (run_context v)) addr = Some cur"
      by (metis list.set_intros(1) subsetD weak_map_of_SomeI image_iff prod.collapse map_of_eq_None_iff not_Some_eq)
    from Cons.prems(2) True
    have rr: "list_all (\<lambda>(rule, args). \<not> isl (call_rule h rule v addr args)) (segment_rules v addr)"
      by simp
    from verify_rules_cases [OF cur rr] show ?thesis
    proof
      assume ok: "verify_rules h v addr (segment_rules v addr) = Inr ()
           \<and> (\<forall>val. list_ex (\<lambda>(rule, args). call_rule h rule v addr args = Inr (Some val))
                        (segment_rules v addr)
                  \<longrightarrow> cur = val \<or> check_eq h v cur val)"
      then have "\<forall>c val. \<not> deduction_mismatch h v addr c val"
        using cur by (auto simp: deduction_mismatch_def memory_get_def)
      moreover from ok True have "verify_addresses h v (addr # addrs) = verify_addresses h v addrs"
        by (simp add: segment_rules_def)
      ultimately show ?thesis using IH by auto
    next
      assume "\<exists>val. verify_rules h v addr (segment_rules v addr)
                 = Inl (InconsistentAutoDeductionError addr cur val)
              \<and> list_ex (\<lambda>(rule, args). call_rule h rule v addr args = Inr (Some val))
                   (segment_rules v addr)
              \<and> cur \<noteq> val \<and> \<not> check_eq h v cur val"
      then obtain val where
        e: "verify_rules h v addr (segment_rules v addr)
                 = Inl (InconsistentAutoDeductionError addr cur val)"
        and m: "list_ex (\<lambda>(rule, args). call_rule h rule v addr args = Inr (Some val))
                   (segment_rules v addr)" "cur \<noteq> val" "\<not> check_eq h v cur val"
        by blast
      from e True have "verify_addresses h v (addr # addrs)
                 = Inl (InconsistentAutoDeductionError addr cur val)"
        by (simp add: segment_rules_def)
      moreover from m cur True have "deduction_mismatch h v addr cur val"
        by (simp add: deduction_mismatch_def memory_get_def)
      ultimately show ?thesis by blast
    qed
  qed
qed

lemma mismatch_written:
  "deduction_mismatch h v addr cur val \<Longrightarrow> addr \<in> fst ` set (run_context.memory (run_context v))"
  by (auto simp: deduction_mismatch_def memory_get_def dest!: map_of_SomeD intro: rev_image_eqI)

text \<open>
  Claim C3, as amended. When the deduction rules return on the written addresses (none of them
  raises: an exception of a rule is not caught and ends the verifier),
  \<^verbatim>\<open>verify_auto_deductions\<close> raises \<^verbatim>\<open>InconsistentAutoDeductionError\<close> if and only if some
  written relocatable address has a rule of its segment returning a value that differs from
  the stored one and that \<^verbatim>\<open>check_eq\<close> rejects; the error raised names such an address, the
  stored value and the value of the rule; and the verifier returns normally exactly when there is
  no such address.
\<close>

theorem verify_auto_deductions_iff:
  assumes "rules_return h v"
  shows "((\<exists>addr cur val. verify_auto_deductions h v
              = Inl (InconsistentAutoDeductionError addr cur val))
            = (\<exists>addr cur val. deduction_mismatch h v addr cur val))
       \<and> (\<forall>addr cur val. verify_auto_deductions h v
              = Inl (InconsistentAutoDeductionError addr cur val)
              \<longrightarrow> deduction_mismatch h v addr cur val)
       \<and> ((\<forall>addr cur val. \<not> deduction_mismatch h v addr cur val)
              = (verify_auto_deductions h v = Inr ()))"
proof -
  let ?addrs = "map fst (run_context.memory (run_context v))"
  have sub: "set ?addrs \<subseteq> fst ` set (run_context.memory (run_context v))" by simp
  from assms have rr: "list_all (\<lambda>addr. list_all (\<lambda>(rule, args). \<not> isl (call_rule h rule v addr args))
                        (segment_rules v addr)) (filter is_relocatable ?addrs)"
    by (simp add: rules_return_def)
  from verify_addresses_cases [OF sub rr]
  show ?thesis
  proof
    assume ok: "verify_addresses h v ?addrs = Inr ()
           \<and> (\<forall>addr \<in> set ?addrs. \<forall>cur val. \<not> deduction_mismatch h v addr cur val)"
    then have "\<forall>addr cur val. \<not> deduction_mismatch h v addr cur val"
      using mismatch_written [of h v] by (metis set_map)
    with ok show ?thesis by (simp add: verify_auto_deductions_def)
  next
    assume "\<exists>addr cur val. verify_addresses h v ?addrs = Inl (InconsistentAutoDeductionError addr cur val)
              \<and> deduction_mismatch h v addr cur val"
    then show ?thesis by (auto simp: verify_auto_deductions_def)
  qed
qed

theorem verify_auto_deductions_iff_witness:
  "rules_return example_host example_vm_mismatch
   \<and> verify_auto_deductions example_host example_vm_mismatch
        = Inl (InconsistentAutoDeductionError (RelocatableValue 2 5) (IntValue 42) (IntValue 43))
   \<and> deduction_mismatch example_host example_vm_mismatch (RelocatableValue 2 5) (IntValue 42)
        (IntValue 43)
   \<and> rules_return example_host example_vm_deduced
   \<and> verify_auto_deductions example_host example_vm_deduced = Inr ()"
proof -
  have a: "rules_return example_host example_vm_mismatch"
    by (simp add: rules_return_def segment_rules_def example_defs)
  have b: "verify_auto_deductions example_host example_vm_mismatch
        = Inl (InconsistentAutoDeductionError (RelocatableValue 2 5) (IntValue 42) (IntValue 43))"
    by (simp add: verify_auto_deductions_def validated_memory_getitem_def memory_getitem_def
        example_defs)
  from verify_auto_deductions_iff [OF a] b
  have c: "deduction_mismatch example_host example_vm_mismatch (RelocatableValue 2 5)
             (IntValue 42) (IntValue 43)"
    by blast
  have d: "rules_return example_host example_vm_deduced"
    by (simp add: rules_return_def segment_rules_def example_defs)
  have "\<forall>addr cur val. \<not> deduction_mismatch example_host example_vm_deduced addr cur val"
    by (auto simp: deduction_mismatch_def segment_rules_def memory_get_def example_defs
        split: if_splits)
  with verify_auto_deductions_iff [OF d]
  have e: "verify_auto_deductions example_host example_vm_deduced = Inr ()" by blast
  from a b c d e show ?thesis by blast
qed

text \<open>The claim as worded fails when a rule raises: with the rules \<open>0\<close>, \<open>1\<close>, \<open>3\<close>, \<open>2\<close> on
  segment \<open>2\<close> and \<open>42\<close> stored at \<open>(2,5)\<close>, rule \<open>2\<close> returns \<open>43\<close>, which differs and is
  rejected by \<^verbatim>\<open>check_eq\<close>, but the verifier ends with the exception of rule \<open>3\<close>, not with
  \<^verbatim>\<open>InconsistentAutoDeductionError\<close>.\<close>

theorem verify_auto_deductions_raising_counterexample:
  "deduction_mismatch example_host example_vm_raising (RelocatableValue 2 5) (IntValue 42)
     (IntValue 43)
   \<and> verify_auto_deductions example_host example_vm_raising
       = Inl (HostException ''rule raised'')"
  by (simp add: deduction_mismatch_def segment_rules_def memory_get_def
      verify_auto_deductions_def validated_memory_getitem_def memory_getitem_def example_defs)

lemma verify_no_rules: "auto_deduction v = [] \<Longrightarrow> verify_addresses h v addrs = Inr ()"
  by (induction addrs) (simp_all add: dict_get_default_def)

lemma enter_scope_fields:
  "auto_deduction (enter_scope l v) = auto_deduction v
   \<and> run_context (enter_scope l v) = run_context v
   \<and> length (exec_scopes (enter_scope l v)) = Suc (length (exec_scopes v))"
  by (simp add: enter_scope_def)

lemma balanced_scopes:
  "length (exec_scopes v) = 1 \<Longrightarrow>
   exit_scope (enter_scope None (enter_scope (Some [(''x'', Value (IntValue 1))]) v))
     = Inr (enter_scope (Some [(''x'', Value (IntValue 1))]) v)
   \<and> exit_scope (enter_scope (Some [(''x'', Value (IntValue 1))]) v) = Inr v"
  by (simp add: exit_scope_def enter_scope_def butlast_append)

text \<open>
  Claim C5. \<^verbatim>\<open>end_run\<close> first runs \<^verbatim>\<open>verify_auto_deductions\<close>, whose error, if any, is the
  result; when the verifier passes, \<^verbatim>\<open>end_run\<close> fails with the unbalanced-scope error
  (\<^verbatim>\<open>VmExceptionBase\<close> with the message about \<^verbatim>\<open>enter_scope\<close> and \<^verbatim>\<open>exit_scope\<close>) if and only
  if the scope stack does not hold exactly one entry, and succeeds otherwise. On a freshly
  constructed machine the sequence \<^verbatim>\<open>enter_scope({x: 1}); enter_scope(); exit_scope();
  exit_scope()\<close> succeeds and leads back to a state where \<^verbatim>\<open>end_run\<close> succeeds, while after
  a single \<^verbatim>\<open>enter_scope()\<close> it fails with the unbalanced-scope error.
\<close>

theorem end_run_scope_balance:
  "(case verify_auto_deductions h v of
      Inl e \<Rightarrow> end_run h v = Inl e
    | Inr u \<Rightarrow>
        (end_run h v
           = Inl (VmExceptionBase ''Every enter_scope() requires a corresponding exit_scope().''))
          = (length (exec_scopes v) \<noteq> 1)
        \<and> (end_run h v = Inr ()) = (length (exec_scopes v) = 1))
   \<and> (vm_init h prog rc hint_locals user_static_locals runners program_base = Inr v0 \<longrightarrow>
        exit_scope (enter_scope None (enter_scope (Some [(''x'', Value (IntValue 1))]) v0))
          = Inr (enter_scope (Some [(''x'', Value (IntValue 1))]) v0)
        \<and> exit_scope (enter_scope (Some [(''x'', Value (IntValue 1))]) v0) = Inr v0
        \<and> end_run h v0 = Inr ()
        \<and> end_run h (enter_scope None v0)
            = Inl (VmExceptionBase ''Every enter_scope() requires a corresponding exit_scope().''))"
proof (intro conjI impI)
  show "case verify_auto_deductions h v of
      Inl e \<Rightarrow> end_run h v = Inl e
    | Inr u \<Rightarrow>
        (end_run h v
           = Inl (VmExceptionBase ''Every enter_scope() requires a corresponding exit_scope().''))
          = (length (exec_scopes v) \<noteq> 1)
        \<and> (end_run h v = Inr ()) = (length (exec_scopes v) = 1)"
    by (simp add: end_run_def split: sum.splits)
next
  assume init: "vm_init h prog rc hint_locals user_static_locals runners program_base = Inr v0"
  from vm_init_state [OF init] have len: "length (exec_scopes v0) = 1"
    and nr: "auto_deduction v0 = []" by simp_all
  from balanced_scopes [OF len]
  show "exit_scope (enter_scope None (enter_scope (Some [(''x'', Value (IntValue 1))]) v0))
          = Inr (enter_scope (Some [(''x'', Value (IntValue 1))]) v0)"
    and "exit_scope (enter_scope (Some [(''x'', Value (IntValue 1))]) v0) = Inr v0"
    by simp_all
  from len nr show "end_run h v0 = Inr ()"
    by (simp add: end_run_def verify_auto_deductions_def verify_no_rules)
  from len nr show "end_run h (enter_scope None v0)
            = Inl (VmExceptionBase ''Every enter_scope() requires a corresponding exit_scope().'')"
    by (simp add: end_run_def verify_auto_deductions_def verify_no_rules enter_scope_fields)
qed

theorem end_run_scope_balance_witness:
  "vm_init example_host (FullProgram example_program) example_initial_context
     [(''n'', Value (IntValue 3))] None [(''output_builtin'', Opaque 9)] (RelocatableValue 0 0)
     = Inr example_vm
   \<and> exit_scope (enter_scope (Some [(''x'', Value (IntValue 1))]) example_vm) = Inr example_vm
   \<and> end_run example_host example_vm = Inr ()
   \<and> end_run example_host (enter_scope None example_vm)
        = Inl (VmExceptionBase ''Every enter_scope() requires a corresponding exit_scope().'')
   \<and> verify_auto_deductions example_host example_vm_mismatch
        = Inl (InconsistentAutoDeductionError (RelocatableValue 2 5) (IntValue 42) (IntValue 43))
   \<and> end_run example_host example_vm_mismatch
        = Inl (InconsistentAutoDeductionError (RelocatableValue 2 5) (IntValue 42) (IntValue 43))"
proof -
  note init = example_vm_init
  have b: "verify_auto_deductions example_host example_vm_mismatch
        = Inl (InconsistentAutoDeductionError (RelocatableValue 2 5) (IntValue 42) (IntValue 43))"
    by (simp add: verify_auto_deductions_def validated_memory_getitem_def memory_getitem_def
        example_defs)
  from end_run_scope_balance [where h = example_host and v = example_vm_mismatch] b
  have c: "end_run example_host example_vm_mismatch
        = Inl (InconsistentAutoDeductionError (RelocatableValue 2 5) (IntValue 42) (IntValue 43))"
    by simp
  from end_run_scope_balance [where h = example_host and ?v0.0 = example_vm
      and prog = "FullProgram example_program" and rc = example_initial_context
      and hint_locals = "[(''n'', Value (IntValue 3))]" and user_static_locals = None
      and runners = "[(''output_builtin'', Opaque 9)]" and program_base = "RelocatableValue 0 0"]
    init b c
  show ?thesis by blast
qed

section \<open>Scopes and bindings: properties\<close>

lemma validate_existing_memory_frame:
  "validate_existing_memory h v = Inr v' \<Longrightarrow> frame_eq v v' \<and> exec_scopes v' = exec_scopes v"
  by (auto simp: validate_existing_memory_def dest!: validate_cells_frame)

lemma add_rule_frame:
  "exec_scopes (add_auto_deduction_rule seg rule args v) = exec_scopes v"
  "static_locals (add_auto_deduction_rule seg rule args v) = static_locals v"
  "program (add_auto_deduction_rule seg rule args v) = program v"
  "exec_scopes (add_validation_rule seg rule args v) = exec_scopes v"
  "static_locals (add_validation_rule seg rule args v) = static_locals v"
  "program (add_validation_rule seg rule args v) = program v"
  by (simp_all add: add_auto_deduction_rule_def add_validation_rule_def)

lemma reachable_scopes: "reachable h v \<Longrightarrow> exec_scopes v \<noteq> []"
proof (induction rule: reachable.induct)
  case (r_init prog rc hint_locals user_static_locals runners program_base v)
  from vm_init_state [OF r_init] show ?case by simp
next
  case (r_enter v new_scope_locals)
  then show ?case by (simp add: enter_scope_def)
next
  case (r_exit v v')
  from exit_scope_scopes [OF r_exit(2)] show ?case by simp
next
  case (r_reset v)
  then show ?case by simp
next
  case (r_action v i a l on_stack v' l' on_stack')
  from run_action_scopes [OF r_action(2) r_action.IH] show ?case .
next
  case (r_hint v hint_index hint v')
  from hint_body_frame [OF r_hint(2)] show ?case by simp
next
  case (r_run v v')
  from decode_and_run_scopes [OF r_run(2)] r_run.IH show ?case by simp
next
  case (r_deduce v addr res v')
  from deduce_memory_cell_frame [OF r_deduce(2)] r_deduce.IH show ?case by simp
next
  case (r_add_deduction v seg rule args)
  then show ?case by (simp add: add_rule_frame)
next
  case (r_add_validation v seg rule args)
  then show ?case by (simp add: add_rule_frame)
next
  case (r_validate v v')
  from validate_existing_memory_frame [OF r_validate(2)] r_validate.IH show ?case by simp
next
  case (r_load v prog program_base v')
  from load_program_frame [OF r_load(2)] r_load.IH show ?case by simp
qed

lemma run_hints_reachable:
  "reachable h v \<Longrightarrow> run_hints h v idx hs = Inr (b, v') \<Longrightarrow> reachable h v'"
proof (induction hs arbitrary: v idx)
  case Nil
  then show ?case by simp
next
  case (Cons hint rest)
  from Cons.prems(2) obtain v1 where hb: "hint_body h v idx hint = Inr v1"
    and r: "(if skip_instruction_execution v1 then Inr (True, v1)
             else run_hints h v1 (Suc idx) rest) = Inr (b, v')"
    by (auto split: sum.splits)
  from Cons.prems(1) hb have r1: "reachable h v1" by (rule r_hint)
  show ?case
  proof (cases "skip_instruction_execution v1")
    case True
    with r r1 show ?thesis by simp
  next
    case False
    with r have "run_hints h v1 (Suc idx) rest = Inr (b, v')" by simp
    from Cons.IH [OF r1 this] show ?thesis .
  qed
qed

lemma step_reachable:
  assumes "reachable h v" and "step h v = Inr v'"
  shows "reachable h v'"
proof -
  let ?v0 = "v\<lparr>skip_instruction_execution := False\<rparr>"
  from assms(1) have r0: "reachable h ?v0" by (rule r_reset)
  from assms(2) obtain b v1 where
    rh: "run_hints h ?v0 0 (dict_get_default (vm.hints ?v0) (run_context.pc (run_context ?v0)) [])
           = Inr (b, v1)"
    and fin: "(if b then Inr v1 else decode_and_run h v1) = Inr v'"
    by (auto simp: step_def Let_def split: sum.splits prod.splits)
  from run_hints_reachable [OF r0 rh] have r1: "reachable h v1" .
  show ?thesis
  proof (cases b)
    case True
    with fin r1 show ?thesis by simp
  next
    case False
    with fin have "decode_and_run h v1 = Inr v'" by simp
    with r1 show ?thesis by (rule r_run)
  qed
qed

text \<open>
  Claim C4. In every state of a run the scope stack is non-empty, also after a further step:
  the constructor leaves exactly the main scope, \<^verbatim>\<open>enter_scope\<close> only appends a scope,
  \<^verbatim>\<open>exit_scope\<close> fails with \<^verbatim>\<open>Cannot exit main scope.\<close> when one scope is left, and when it
  succeeds it drops the last scope and leaves a non-empty stack.
\<close>

theorem scope_stack_never_empty:
  assumes "reachable h v"
  shows "exec_scopes v \<noteq> []
       \<and> (\<forall>v'. step h v = Inr v' \<longrightarrow> exec_scopes v' \<noteq> [])
       \<and> exec_scopes (enter_scope new_scope_locals v) =
           exec_scopes v @ [dict_update (case new_scope_locals of None \<Rightarrow> [] | Some l \<Rightarrow> l)
                              (builtin_runners v)]
       \<and> (length (exec_scopes v) = 1 \<longrightarrow>
            exit_scope v = Inl (AssertionError ''Cannot exit main scope.''))
       \<and> (\<forall>v'. exit_scope v = Inr v' \<longrightarrow>
            exec_scopes v' = butlast (exec_scopes v) \<and> exec_scopes v' \<noteq> [])
       \<and> (\<forall>prog rc hint_locals user_static_locals runners program_base v0.
            vm_init h prog rc hint_locals user_static_locals runners program_base = Inr v0 \<longrightarrow>
            exec_scopes v0 = [dict_update hint_locals runners])"
proof (intro conjI allI impI)
  from assms show "exec_scopes v \<noteq> []" by (rule reachable_scopes)
next
  fix v' assume "step h v = Inr v'"
  with assms have "reachable h v'" by (rule step_reachable)
  then show "exec_scopes v' \<noteq> []" by (rule reachable_scopes)
next
  show "exec_scopes (enter_scope new_scope_locals v) =
           exec_scopes v @ [dict_update (case new_scope_locals of None \<Rightarrow> [] | Some l \<Rightarrow> l)
                              (builtin_runners v)]"
    by (simp add: enter_scope_def)
next
  assume "length (exec_scopes v) = 1"
  then show "exit_scope v = Inl (AssertionError ''Cannot exit main scope.'')"
    by (simp add: exit_scope_def)
next
  fix v' assume e: "exit_scope v = Inr v'"
  then show "exec_scopes v' = butlast (exec_scopes v)"
    by (auto simp: exit_scope_def split: if_splits)
  from exit_scope_scopes [OF e] show "exec_scopes v' \<noteq> []" by simp
next
  fix prog rc hint_locals user_static_locals runners program_base v0
  assume "vm_init h prog rc hint_locals user_static_locals runners program_base = Inr (v0 :: 'a vm)"
  from vm_init_state [OF this] show "exec_scopes v0 = [dict_update hint_locals runners]" by simp
qed

lemma example_vm_reachable: "reachable example_host example_vm"
  using example_vm_init by (rule r_init)

theorem scope_stack_never_empty_witness:
  "reachable example_host example_vm
   \<and> exec_scopes example_vm \<noteq> []
   \<and> length (exec_scopes example_vm) = 1
   \<and> exit_scope example_vm = Inl (AssertionError ''Cannot exit main scope.'')
   \<and> exit_scope (enter_scope None example_vm) = Inr example_vm"
proof -
  note r = example_vm_reachable
  have len: "length (exec_scopes example_vm) = 1" by (simp add: example_defs)
  from scope_stack_never_empty [OF r, where new_scope_locals = None] len
  have a: "exec_scopes example_vm \<noteq> []"
    and b: "exit_scope example_vm = Inl (AssertionError ''Cannot exit main scope.'')"
    by blast+
  have c: "exit_scope (enter_scope None example_vm) = Inr example_vm"
    by (simp add: exit_scope_def enter_scope_def example_defs)
  from r a len b c show ?thesis by blast
qed

lemma map_of_dict_update_rev:
  "map_of (dict_update d e) k = (case map_of (rev e) k of None \<Rightarrow> map_of d k | Some x \<Rightarrow> Some x)"
  unfolding dict_update_def
proof (induction e arbitrary: d rule: rev_induct)
  case Nil
  then show ?case by simp
next
  case (snoc kv e)
  obtain k' x' where kv: "kv = (k', x')" by (cases kv)
  show ?case using snoc.IH [of d] kv
    by (simp add: update_conv')
qed

lemma distinct_dict_update:
  "distinct (map fst d) \<Longrightarrow> distinct (map fst (dict_update d e))"
  unfolding dict_update_def
proof (induction e arbitrary: d)
  case Nil
  then show ?case by simp
next
  case (Cons kv e)
  obtain k' x' where kv: "kv = (k', x')" by (cases kv)
  from Cons.prems have "distinct (map fst (AList.update k' x' d))" by (rule distinct_update)
  from Cons.IH [OF this] kv show ?case by simp
qed

lemma map_of_rev_distinct:
  "distinct (map fst e) \<Longrightarrow> map_of (rev e) = map_of e"
  by (rule ext) (metis distinct_rev map_of_inject_set rev_map set_rev)

lemma map_of_dict_update:
  "distinct (map fst e) \<Longrightarrow>
   map_of (dict_update d e) k = (case map_of e k of None \<Rightarrow> map_of d k | Some x \<Rightarrow> Some x)"
  by (simp add: map_of_dict_update_rev map_of_rev_distinct)

lemma reachable_static_distinct:
  "reachable h v \<Longrightarrow> distinct (map fst (static_locals v))"
proof (induction rule: reachable.induct)
  case (r_init prog rc hint_locals user_static_locals runners program_base v)
  have "distinct (map fst (case user_static_locals of None \<Rightarrow> [] | Some l \<Rightarrow> dict_copy l))"
    by (cases user_static_locals) (simp_all add: dict_copy_def distinct_dict_update)
  with vm_init_state [OF r_init] show ?case
    by (simp add: distinct_dict_update)
next
  case (r_enter v new_scope_locals)
  then show ?case by (simp add: enter_scope_def)
next
  case (r_exit v v')
  then show ?case by (auto simp: exit_scope_def split: if_splits)
next
  case (r_reset v)
  then show ?case by simp
next
  case (r_action v i a l on_stack v' l' on_stack')
  from run_action_frame [OF r_action(2)] r_action.IH show ?case by (simp add: static_eq_def)
next
  case (r_hint v hint_index hint v')
  from hint_body_frame [OF r_hint(2)] r_hint.IH show ?case by (simp add: static_eq_def)
next
  case (r_run v v')
  from decode_and_run_scopes [OF r_run(2)] r_run.IH show ?case by simp
next
  case (r_deduce v addr res v')
  from deduce_memory_cell_frame [OF r_deduce(2)] r_deduce.IH show ?case
    by (simp add: frame_eq_def)
next
  case (r_add_deduction v seg rule args)
  then show ?case by (simp add: add_rule_frame)
next
  case (r_add_validation v seg rule args)
  then show ?case by (simp add: add_rule_frame)
next
  case (r_validate v v')
  from validate_existing_memory_frame [OF r_validate(2)] r_validate.IH show ?case
    by (simp add: frame_eq_def)
next
  case (r_load v prog program_base v')
  from load_program_frame [OF r_load(2)] r_load.IH show ?case by (simp add: frame_eq_def)
qed

lemma reachable_static:
  "reachable h v \<Longrightarrow>
   map_of (static_locals v) ''PRIME'' = Some (Value (IntValue (program_prime (program v))))"
proof (induction rule: reachable.induct)
  case (r_init prog rc hint_locals user_static_locals runners program_base v)
  from vm_init_state [OF r_init] show ?case
    by (simp add: map_of_dict_update_rev builtin_static_locals_def)
next
  case (r_enter v new_scope_locals)
  then show ?case by (simp add: enter_scope_def)
next
  case (r_exit v v')
  then show ?case by (auto simp: exit_scope_def split: if_splits)
next
  case (r_reset v)
  then show ?case by simp
next
  case (r_action v i a l on_stack v' l' on_stack')
  from run_action_frame [OF r_action(2)] r_action.IH show ?case by (simp add: static_eq_def)
next
  case (r_hint v hint_index hint v')
  from hint_body_frame [OF r_hint(2)] r_hint.IH show ?case by (simp add: static_eq_def)
next
  case (r_run v v')
  from decode_and_run_scopes [OF r_run(2)] r_run.IH show ?case by simp
next
  case (r_deduce v addr res v')
  from deduce_memory_cell_frame [OF r_deduce(2)] r_deduce.IH show ?case
    by (simp add: frame_eq_def)
next
  case (r_add_deduction v seg rule args)
  then show ?case by (simp add: add_rule_frame)
next
  case (r_add_validation v seg rule args)
  then show ?case by (simp add: add_rule_frame)
next
  case (r_validate v v')
  from validate_existing_memory_frame [OF r_validate(2)] r_validate.IH show ?case
    by (simp add: frame_eq_def)
next
  case (r_load v prog program_base v')
  from load_program_frame [OF r_load(2)] r_load.IH show ?case by (simp add: frame_eq_def)
qed

lemma overlay_lookup:
  "map_of
     (AList.update ''vm_exit_scope'' x9
       (AList.update ''vm_enter_scope'' x8
         (AList.update ''vm_load_program'' x7
           (AList.update ''ids'' x6
             (AList.update ''current_step'' x5
               (AList.update ''pc'' x4
                 (AList.update ''fp'' x3
                   (AList.update ''ap'' x2
                     (AList.update ''memory'' x1 scope0))))))))) k =
     (if k = ''vm_exit_scope'' then Some x9
      else if k = ''vm_enter_scope'' then Some x8
      else if k = ''vm_load_program'' then Some x7
      else if k = ''ids'' then Some x6
      else if k = ''current_step'' then Some x5
      else if k = ''pc'' then Some x4
      else if k = ''fp'' then Some x3
      else if k = ''ap'' then Some x2
      else if k = ''memory'' then Some x1
      else map_of scope0 k)"
  by (simp add: update_conv')

lemma hint_exec_locals_lookup:
  assumes "distinct (map fst (static_locals v))"
  shows "map_of (hint_exec_locals v hint scope0) k =
     (case map_of (static_locals v) k of
        Some x \<Rightarrow> Some x
      | None \<Rightarrow>
          (if k = ''vm_exit_scope'' then Some (BoundMethod ''exit_scope'')
           else if k = ''vm_enter_scope'' then Some (BoundMethod ''enter_scope'')
           else if k = ''vm_load_program'' then Some (BoundMethod ''load_program'')
           else if k = ''ids'' then
             Some (VmConsts (call_consts (hint_consts hint) (run_context.pc (run_context v))
                     (run_context.ap (run_context v)) (run_context.fp (run_context v))))
           else if k = ''current_step'' then Some (Value (IntValue (int (current_step v))))
           else if k = ''pc'' then Some (Value (run_context.pc (run_context v)))
           else if k = ''fp'' then Some (Value (run_context.fp (run_context v)))
           else if k = ''ap'' then Some (Value (run_context.ap (run_context v)))
           else if k = ''memory'' then Some ValidatedMemoryRef
           else map_of scope0 k))"
  unfolding hint_exec_locals_def Let_def map_of_dict_update [OF assms] overlay_lookup
  by (simp split: option.splits)

section \<open>The step: properties\<close>

lemma run_validation_rules_host:
  "same_effects_host h h' \<Longrightarrow>
   run_validation_rules h' mem addr rules acc = run_validation_rules h mem addr rules acc"
  by (induction rules arbitrary: acc) (auto simp: same_effects_host_def split: sum.splits)

lemma validated_memory_setitem_host:
  "same_effects_host h h' \<Longrightarrow>
   validated_memory_setitem h' v addr val = validated_memory_setitem h v addr val"
  by (auto simp: validated_memory_setitem_def validate_memory_cell_def run_validation_rules_host
      split: sum.splits)

lemma compile_hints_host:
  "same_effects_host h h' \<Longrightarrow>
   compile_hints h' prog hint_pc v idx hs acc = compile_hints h prog hint_pc v idx hs acc"
  by (induction hs arbitrary: v idx acc)
    (simp_all add: same_effects_host_def compile_hint_def Let_def split: sum.splits)

lemma load_hints_loop_host:
  "same_effects_host h h' \<Longrightarrow>
   load_hints_loop h' prog base v items = load_hints_loop h prog base v items"
proof (induction items arbitrary: v)
  case Nil
  then show ?case by simp
next
  case (Cons item rest)
  obtain off hs where item: "item = (off, hs)" by (cases item)
  show ?case using Cons item
    by (simp add: compile_hints_host split: sum.splits)
qed

lemma load_program_host:
  "same_effects_host h h' \<Longrightarrow> load_program h' prog base v = load_program h prog base v"
  by (simp add: load_program_def load_hints_def load_hints_loop_host)

lemma run_action_host:
  "same_effects_host h h' \<Longrightarrow> run_action h' i a st = run_action h i a st"
  by (cases "(h, i, a, st)" rule: run_action.cases)
    (simp_all add: validated_memory_setitem_host load_program_host)

lemma run_actions_host:
  "same_effects_host h h' \<Longrightarrow> run_actions h' i as st = run_actions h i as st"
  by (induction as arbitrary: st) (simp_all add: run_action_host split: sum.splits)

lemma write_all_host:
  "same_effects_host h h' \<Longrightarrow> write_all h' v ws = write_all h v ws"
proof (induction ws arbitrary: v)
  case Nil
  then show ?case by simp
next
  case (Cons w ws)
  obtain a x where w: "w = (a, x)" by (cases w)
  show ?case using Cons w
    by (simp add: validated_memory_setitem_host split: sum.splits)
qed

lemma same_hint_effects: "same_hint_host h h' \<Longrightarrow> same_effects_host h h'"
  by (simp add: same_hint_host_def same_effects_host_def)

lemma hint_body_host:
  "same_hint_host h h' \<Longrightarrow> hint_body h' v idx hint = hint_body h v idx hint"
proof -
  assume s: "same_hint_host h h'"
  then have e: "exec_code h' = exec_code h" by (simp add: same_hint_host_def)
  show ?thesis
    by (simp add: hint_body_def exec_hint_def run_actions_host [OF same_hint_effects [OF s]] e)
qed

lemma run_hints_host:
  "same_hint_host h h' \<Longrightarrow> run_hints h' v idx hs = run_hints h v idx hs"
  by (induction hs arbitrary: v idx) (simp_all add: hint_body_host split: sum.splits)

lemma validated_memory_setitem_memory:
  assumes "validated_memory_setitem h v addr val = Inr v'"
  shows "run_context.memory (run_context v') =
           apply_writes (run_context.memory (run_context v)) [(addr, val)]"
proof -
  from assms obtain m' where m: "memory_setitem (run_context.memory (run_context v)) addr val = Inr m'"
    and vc: "validate_memory_cell h (v\<lparr>run_context := (run_context v)\<lparr>memory := m'\<rparr>\<rparr>) addr = Inr v'"
    by (auto simp: validated_memory_setitem_def split: sum.splits)
  from m have "m' = apply_writes (run_context.memory (run_context v)) [(addr, val)]"
    by (auto simp: memory_setitem_def split: option.splits if_splits)
  with validate_memory_cell_memory [OF vc] show ?thesis by simp
qed

lemma apply_writes_append: "apply_writes m (ws @ ws') = apply_writes (apply_writes m ws) ws'"
  by (induction ws arbitrary: m) auto

lemma apply_writes_extends: "\<exists>new. apply_writes m ws = m @ new"
proof (induction ws arbitrary: m)
  case Nil
  then show ?case by simp
next
  case (Cons w ws)
  obtain a x where w: "w = (a, x)" by (cases w)
  from Cons.IH [of "if map_of m a = None then m @ [(a, x)] else m"] w
  show ?case by (auto split: if_splits)
qed

lemma run_action_memory:
  assumes "run_action h i a (v, l, s) = Inr (v', l', s')"
  shows "run_context.memory (run_context v') =
           apply_writes (run_context.memory (run_context v)) (memory_writes [a])"
proof (cases a)
  case (MemoryWrite addr val)
  with assms show ?thesis
    by (auto split: sum.splits dest!: validated_memory_setitem_memory)
next
  case (VmLoadProgram prog base)
  with assms show ?thesis
    by (auto split: sum.splits dest!: load_program_frame)
qed (use assms in \<open>auto simp: enter_scope_def exit_scope_def split: if_splits sum.splits\<close>)

lemma memory_writes_Cons: "memory_writes (a # rest) = memory_writes [a] @ memory_writes rest"
  by (cases a) simp_all

lemma run_actions_memory:
  "run_actions h i as st = Inr st' \<Longrightarrow>
   run_context.memory (run_context (fst st')) =
     apply_writes (run_context.memory (run_context (fst st))) (memory_writes as)"
proof (induction as arbitrary: st)
  case Nil
  then show ?case by simp
next
  case (Cons a rest)
  from Cons.prems obtain st1 where a: "run_action h i a st = Inr st1"
    and r: "run_actions h i rest st1 = Inr st'"
    by (auto split: sum.splits)
  obtain v l s where st: "st = (v, l, s)" by (cases st)
  obtain v1 l1 s1 where st1: "st1 = (v1, l1, s1)" by (cases st1)
  from run_action_memory [of h i a v l s v1 l1 s1] a st st1
  have "run_context.memory (run_context (fst st1)) =
          apply_writes (run_context.memory (run_context (fst st))) (memory_writes [a])"
    by simp
  with Cons.IH [OF r] show ?case
    by (simp only: memory_writes_Cons [of a rest] apply_writes_append)
qed

lemma hint_body_memory:
  assumes "hint_body h v idx hint = Inr v'"
  shows "run_context.memory (run_context v') =
           apply_writes (run_context.memory (run_context v))
             (memory_writes (exec_code h (compiled hint) (hint_globals v hint) v))"
proof -
  from assms have ne: "exec_scopes v \<noteq> []"
    by (auto simp: hint_body_def split: if_splits)
  from assms ne obtain v1 l1 s1 l3 where
    ex: "run_actions h (length (exec_scopes v) - 1)
           (exec_code h (compiled hint) (hint_globals v hint) v)
           (v, hint_globals v hint, True) = Inr (v1, l1, s1)"
    and v': "v' = (if s1 then v1\<lparr>exec_scopes :=
                     (exec_scopes v1)[length (exec_scopes v) - 1 := l3]\<rparr> else v1)"
    by (auto simp: hint_body_def exec_hint_def hint_globals_def
        split: if_splits sum.splits prod.splits)
  from run_actions_memory [OF ex] v' show ?thesis by auto
qed

lemma run_hints_frame:
  "run_hints h v idx hs = Inr (b, v') \<Longrightarrow>
   static_eq v v'
   \<and> (\<exists>new. run_context.memory (run_context v') = run_context.memory (run_context v) @ new)
   \<and> (hints_keep_registers h v idx hs \<longrightarrow> frame_eq v v')"
proof (induction hs arbitrary: v idx)
  case Nil
  then show ?case by (simp add: frame_eq_refl static_eq_refl)
next
  case (Cons hint rest)
  from Cons.prems obtain v1 where hb: "hint_body h v idx hint = Inr v1"
    and r: "(if skip_instruction_execution v1 then Inr (True, v1)
             else run_hints h v1 (Suc idx) rest) = Inr (b, v')"
    by (auto split: sum.splits)
  from hint_body_frame [OF hb] have s1: "static_eq v v1"
    and f1: "list_all keeps_registers (exec_code h (compiled hint) (hint_globals v hint) v)
               \<Longrightarrow> frame_eq v v1"
    by simp_all
  from hint_body_memory [OF hb] apply_writes_extends
  obtain new1 where m1: "run_context.memory (run_context v1)
                           = run_context.memory (run_context v) @ new1"
    by metis
  show ?case
  proof (cases "skip_instruction_execution v1")
    case True
    with r have "v' = v1" by simp
    with s1 f1 m1 show ?thesis by auto
  next
    case False
    with r have rr: "run_hints h v1 (Suc idx) rest = Inr (b, v')" by simp
    from Cons.IH [OF rr] have s2: "static_eq v1 v'"
      and m2: "\<exists>new. run_context.memory (run_context v') = run_context.memory (run_context v1) @ new"
      and f2: "hints_keep_registers h v1 (Suc idx) rest \<Longrightarrow> frame_eq v1 v'"
      by simp_all
    have "frame_eq v v'" if k: "hints_keep_registers h v idx (hint # rest)"
    proof -
      from k hb False have "hints_keep_registers h v1 (Suc idx) rest"
        and "list_all keeps_registers (exec_code h (compiled hint) (hint_globals v hint) v)"
        by simp_all
      with f1 f2 show ?thesis by (blast intro: frame_eq_trans)
    qed
    moreover from m1 m2 have "\<exists>new. run_context.memory (run_context v')
                                 = run_context.memory (run_context v) @ new"
      by auto
    ultimately show ?thesis using s1 s2 by (blast intro: static_eq_trans)
  qed
qed

lemma run_hints_skip:
  "run_hints h v idx before = Inr (False, va) \<Longrightarrow>
   hint_body h va (idx + length before) hint = Inr vb \<Longrightarrow>
   skip_instruction_execution vb \<Longrightarrow>
   run_hints h v idx (before @ hint # rest) = Inr (True, vb)"
proof (induction before arbitrary: v idx)
  case Nil
  then show ?case by simp
next
  case (Cons x before)
  from Cons.prems(1) obtain v1 where hb: "hint_body h v idx x = Inr v1"
    and ns: "\<not> skip_instruction_execution v1"
    and r: "run_hints h v1 (Suc idx) before = Inr (False, va)"
    by (auto split: sum.splits if_splits)
  from Cons.prems(2) have "hint_body h va (Suc idx + length before) hint = Inr vb" by simp
  from Cons.IH [OF r this Cons.prems(3)] hb ns show ?case by simp
qed

text \<open>
  Claim C2, as amended. Let the hints at the current pc be \<open>before @ hint # rest\<close>, let the
  hints of \<open>before\<close> run without setting the skip flag, and let \<open>hint\<close> run, leave \<^verbatim>\<open>ids\<close> and
  \<^verbatim>\<open>memory\<close> bound for the step to delete, and set the flag. Then \<^verbatim>\<open>step\<close> returns the state
  \<open>vb\<close> that \<open>hint\<close> leaves: the hints of \<open>rest\<close> have no part in it, and neither have the decoder
  and \<^verbatim>\<open>run_instruction\<close> (any host that runs hints alike gives the same result), so the step
  itself assigns no register and appends no trace entry. When no hint executed in the step
  assigns a register, the trace or the step counter through the machine, pc, ap and fp, the
  trace and the step counter are those of the state before the step. The memory is the memory
  \<open>hint\<close> started from with the writes of \<open>hint\<close> applied, which itself is the memory before
  the step followed by what the earlier hints wrote.
\<close>

theorem step_skip_instruction_execution:
  assumes "dict_get_default (vm.hints v) (run_context.pc (run_context v)) []
             = before @ hint # rest"
    and "run_hints h (v\<lparr>skip_instruction_execution := False\<rparr>) 0 before = Inr (False, va)"
    and "hint_body h va (length before) hint = Inr vb"
    and "skip_instruction_execution vb"
    and "same_hint_host h h'"
  shows "step h v = Inr vb \<and> step h' v = Inr vb
       \<and> (hints_keep_registers h (v\<lparr>skip_instruction_execution := False\<rparr>) 0
             (before @ hint # rest) \<longrightarrow>
            run_context.pc (run_context vb) = run_context.pc (run_context v)
            \<and> run_context.ap (run_context vb) = run_context.ap (run_context v)
            \<and> run_context.fp (run_context vb) = run_context.fp (run_context v)
            \<and> vm.trace vb = vm.trace v \<and> current_step vb = current_step v)
       \<and> run_context.memory (run_context vb) =
           apply_writes (run_context.memory (run_context va))
             (memory_writes (exec_code h (compiled hint) (hint_globals va hint) va))
       \<and> (\<exists>new. run_context.memory (run_context va) = run_context.memory (run_context v) @ new)"
proof -
  let ?v0 = "v\<lparr>skip_instruction_execution := False\<rparr>"
  from assms(3) have hb: "hint_body h va (0 + length before) hint = Inr vb" by simp
  from run_hints_skip [OF assms(2) hb assms(4)]
  have rh: "run_hints h ?v0 0 (before @ hint # rest) = Inr (True, vb)" .
  then have s1: "step h v = Inr vb"
    by (simp add: step_def Let_def assms(1))
  from rh have "run_hints h' ?v0 0 (before @ hint # rest) = Inr (True, vb)"
    by (simp add: run_hints_host [OF assms(5)])
  then have s2: "step h' v = Inr vb"
    by (simp add: step_def Let_def assms(1))
  from run_hints_frame [OF assms(2)]
  have m0: "\<exists>new. run_context.memory (run_context va) = run_context.memory (run_context v) @ new"
    by simp
  have regs: "run_context.pc (run_context vb) = run_context.pc (run_context v)
            \<and> run_context.ap (run_context vb) = run_context.ap (run_context v)
            \<and> run_context.fp (run_context vb) = run_context.fp (run_context v)
            \<and> vm.trace vb = vm.trace v \<and> current_step vb = current_step v"
    if k: "hints_keep_registers h ?v0 0 (before @ hint # rest)"
  proof -
    from run_hints_frame [OF rh] k have "frame_eq ?v0 vb" by simp
    then show ?thesis by (simp add: frame_eq_def)
  qed
  from s1 s2 regs hint_body_memory [OF assms(3)] m0 show ?thesis by blast
qed

theorem step_skip_instruction_execution_witness:
  "dict_get_default (vm.hints example_vm) (run_context.pc (run_context example_vm)) []
     = [] @ example_compiled0 # [example_compiled1]
   \<and> run_hints example_host (example_vm\<lparr>skip_instruction_execution := False\<rparr>) 0 []
       = Inr (False, example_vm)
   \<and> hint_body example_host example_vm (length []) example_compiled0 = Inr example_vm_skipped
   \<and> skip_instruction_execution example_vm_skipped
   \<and> same_hint_host example_host example_host_decoding
   \<and> hints_keep_registers example_host (example_vm\<lparr>skip_instruction_execution := False\<rparr>) 0
        ([] @ example_compiled0 # [example_compiled1])
   \<and> step example_host example_vm = Inr example_vm_skipped
   \<and> step example_host_decoding example_vm = Inr example_vm_skipped
   \<and> run_context.pc (run_context example_vm_skipped) = run_context.pc (run_context example_vm)
   \<and> vm.trace example_vm_skipped = vm.trace example_vm
   \<and> run_context.memory (run_context example_vm_skipped) = [(RelocatableValue 1 0, IntValue 7)]"
proof -
  have a: "dict_get_default (vm.hints example_vm) (run_context.pc (run_context example_vm)) []
     = [] @ example_compiled0 # [example_compiled1]"
    by (simp add: dict_get_default_def example_vm_def example_vm_with_def
        example_initial_context_def)
  have v0: "example_vm\<lparr>skip_instruction_execution := False\<rparr> = example_vm"
    by (simp add: example_vm_def example_vm_with_def)
  have b: "run_hints example_host (example_vm\<lparr>skip_instruction_execution := False\<rparr>) 0 []
       = Inr (False, example_vm)"
    by (simp add: v0)
  have c: "hint_body example_host example_vm (length []) example_compiled0
             = Inr example_vm_skipped"
    by (simp add: hint_body_def exec_hint_def exec_globals_def hint_exec_locals_def
        dict_delitem_def validated_memory_setitem_def validate_memory_cell_def
        memory_setitem_def call_consts_def Let_def example_defs)
  have d: "skip_instruction_execution example_vm_skipped"
    by (simp add: example_vm_skipped_def)
  have e: "same_hint_host example_host example_host_decoding"
    by (simp add: same_hint_host_def example_host_decoding_def)
  have acts: "list_all keeps_registers
                (exec_code example_host (compiled example_compiled0)
                   (hint_globals example_vm example_compiled0) example_vm)"
    by (simp add: example_host_def example_compiled0_def)
  from c have c0: "hint_body example_host example_vm 0 example_compiled0 = Inr example_vm_skipped"
    by simp
  have k: "hints_keep_registers example_host (example_vm\<lparr>skip_instruction_execution := False\<rparr>) 0
        ([] @ example_compiled0 # [example_compiled1])"
    by (simp add: v0 acts c0 d)
  have i: "run_context.memory (run_context example_vm_skipped)
              = [(RelocatableValue 1 0, IntValue 7)]"
    by (simp add: example_vm_skipped_def example_vm_def example_vm_with_def
        example_initial_context_def)
  from step_skip_instruction_execution [OF a b c d e] k
  have s: "step example_host example_vm = Inr example_vm_skipped"
    and s': "step example_host_decoding example_vm = Inr example_vm_skipped"
    and f: "run_context.pc (run_context example_vm_skipped)
              = run_context.pc (run_context example_vm)"
    and g: "vm.trace example_vm_skipped = vm.trace example_vm"
    by blast+
  from a b c d e k s s' f g i show ?thesis by blast
qed

text \<open>The claim as worded fails in two ways. A hint that sets the flag holds the machine and
  can assign its pc: the step then returns with the flag set and the pc changed. And a hint
  that sets the flag after deleting \<^verbatim>\<open>ids\<close> makes the step raise \<^verbatim>\<open>KeyError\<close> when it deletes
  the name itself, before it looks at the flag.\<close>

theorem step_skip_instruction_execution_counterexample:
  "vm_init example_host (FullProgram (example_program_with ''jump 2'')) example_initial_context
     [(''n'', Value (IntValue 3))] None [(''output_builtin'', Opaque 9)] (RelocatableValue 0 0)
     = Inr (example_vm_hint ''jump 2'')
   \<and> run_context.pc (run_context (example_vm_hint ''jump 2'')) = RelocatableValue 0 0
   \<and> result_skip_and_pc (step example_host (example_vm_hint ''jump 2''))
       = Inr (True, RelocatableValue 0 2)
   \<and> vm_init example_host (FullProgram (example_program_with ''del ids''))
       example_initial_context [(''n'', Value (IntValue 3))] None
       [(''output_builtin'', Opaque 9)] (RelocatableValue 0 0)
       = Inr (example_vm_hint ''del ids'')
   \<and> step example_host (example_vm_hint ''del ids'') = Inl (KeyError ''ids'')"
proof -
  have a: "vm_init example_host (FullProgram (example_program_with ''jump 2''))
     example_initial_context
     [(''n'', Value (IntValue 3))] None [(''output_builtin'', Opaque 9)] (RelocatableValue 0 0)
     = Inr (example_vm_hint ''jump 2'')"
    by (simp add: vm_init_def enter_scope_def load_program_def load_debug_info_def
        load_hints_def compile_hint_def Let_def example_defs)
  have b: "run_context.pc (run_context (example_vm_hint ''jump 2'')) = RelocatableValue 0 0"
    by (simp add: example_defs)
  have c: "result_skip_and_pc (step example_host (example_vm_hint ''jump 2''))
       = Inr (True, RelocatableValue 0 2)"
    by (simp add: result_skip_and_pc_def step_def hint_body_def exec_hint_def exec_globals_def
        hint_exec_locals_def dict_delitem_def call_consts_def Let_def example_defs)
  have d: "vm_init example_host (FullProgram (example_program_with ''del ids''))
       example_initial_context [(''n'', Value (IntValue 3))] None
       [(''output_builtin'', Opaque 9)] (RelocatableValue 0 0)
       = Inr (example_vm_hint ''del ids'')"
    by (simp add: vm_init_def enter_scope_def load_program_def load_debug_info_def
        load_hints_def compile_hint_def Let_def example_defs)
  have e: "step example_host (example_vm_hint ''del ids'') = Inl (KeyError ''ids'')"
    by (simp add: step_def hint_body_def exec_hint_def exec_globals_def
        hint_exec_locals_def dict_delitem_def call_consts_def Let_def example_defs)
  from a b c d e show ?thesis by blast
qed

section \<open>The names bound for a hint: properties\<close>

lemma exec_globals_lookup:
  "map_of (exec_globals l) k =
     (if k = ''__builtins__'' \<and> map_of l k = None then Some BuiltinsModule else map_of l k)"
  by (auto simp: exec_globals_def update_conv')

lemma exec_globals_keeps: "map_of l k = Some x \<Longrightarrow> map_of (exec_globals l) k = Some x"
  by (simp add: exec_globals_lookup)

lemma hint_globals_ok_holds:
  assumes d: "distinct (map fst (static_locals v))"
    and pr: "map_of (static_locals v) ''PRIME''
               = Some (Value (IntValue (program_prime (program v))))"
  shows "hint_globals_ok v (exec_globals (hint_exec_locals v hint scope0))"
proof -
  note lk = hint_exec_locals_lookup [OF d, of hint scope0]
  have names: "list_all (\<lambda>name. map_of (exec_globals (hint_exec_locals v hint scope0)) name \<noteq> None)
                 hint_names"
    by (simp add: hint_names_def exec_globals_lookup lk split: option.splits)
  have statics: "list_all (\<lambda>(name, x). map_of (exec_globals (hint_exec_locals v hint scope0)) name
                                          = Some x) (static_locals v)"
  proof -
    have "map_of (exec_globals (hint_exec_locals v hint scope0)) name = Some x"
      if "(name, x) \<in> set (static_locals v)" for name x
    proof -
      from that d have "map_of (static_locals v) name = Some x" by simp
      then have "map_of (hint_exec_locals v hint scope0) name = Some x" by (simp add: lk)
      then show ?thesis by (rule exec_globals_keeps)
    qed
    then show ?thesis by (auto simp: list_all_iff)
  qed
  from names statics pr show ?thesis
    by (simp add: hint_globals_ok_def exec_globals_lookup lk)
qed

lemma hint_body_exec_agree:
  assumes agree: "\<forall>c l w. hint_globals_ok w l \<longrightarrow> f c l w = exec_code h c l w"
    and d: "distinct (map fst (static_locals v))"
    and pr: "map_of (static_locals v) ''PRIME''
               = Some (Value (IntValue (program_prime (program v))))"
  shows "hint_body (h\<lparr>exec_code := f\<rparr>) v idx hint = hint_body h v idx hint"
proof -
  let ?g = "exec_globals (hint_exec_locals v hint (last (exec_scopes v)))"
  from hint_globals_ok_holds [OF d pr] have "hint_globals_ok v ?g" .
  with agree have eq: "f (compiled hint) ?g v = exec_code h (compiled hint) ?g v" by blast
  have se: "same_effects_host h (h\<lparr>exec_code := f\<rparr>)" by (simp add: same_effects_host_def)
  show ?thesis
    by (simp add: hint_body_def exec_hint_def run_actions_host [OF se] eq)
qed

lemma run_hints_exec_agree:
  assumes agree: "\<forall>c l w. hint_globals_ok w l \<longrightarrow> f c l w = exec_code h c l w"
  shows "distinct (map fst (static_locals v)) \<Longrightarrow>
         map_of (static_locals v) ''PRIME''
           = Some (Value (IntValue (program_prime (program v)))) \<Longrightarrow>
         run_hints (h\<lparr>exec_code := f\<rparr>) v idx hs = run_hints h v idx hs"
proof (induction hs arbitrary: v idx)
  case Nil
  then show ?case by simp
next
  case (Cons hint rest)
  note hb = hint_body_exec_agree [OF agree Cons.prems, of idx hint]
  show ?case
  proof (cases "hint_body h v idx hint")
    case (Inl e)
    with hb show ?thesis by simp
  next
    case (Inr v1)
    from hint_body_frame [OF Inr] have "static_eq v v1" by simp
    with Cons.prems have "distinct (map fst (static_locals v1))"
      and "map_of (static_locals v1) ''PRIME''
             = Some (Value (IntValue (program_prime (program v1))))"
      by (simp_all add: static_eq_def)
    from Cons.IH [OF this] hb Inr show ?thesis by simp
  qed
qed

lemma run_instruction_effect_exec:
  "run_instruction_effect (h\<lparr>exec_code := f\<rparr>) instruction v = run_instruction_effect h instruction v"
proof -
  have se: "same_effects_host h (h\<lparr>exec_code := f\<rparr>)" by (simp add: same_effects_host_def)
  show ?thesis
    by (auto simp: run_instruction_effect_def write_all_host [OF se] split: sum.splits)
qed

lemma decode_and_run_exec:
  "decode_and_run (h\<lparr>exec_code := f\<rparr>) v = decode_and_run h v"
  by (auto simp: decode_and_run_def run_instruction_effect_exec split: sum.splits)

text \<open>
  Claim C7, as amended. In every state of a run, \<^verbatim>\<open>step\<close> executes the code of a hint only in
  dictionaries that hold the bindings below: a host whose \<^verbatim>\<open>exec\<close> behaves differently on
  other dictionaries takes the same step. The dictionary handed to a hint (the top of the
  scope stack with the names of the step stored in it) binds \<^verbatim>\<open>memory\<close>, \<^verbatim>\<open>ap\<close>, \<^verbatim>\<open>fp\<close>,
  \<^verbatim>\<open>pc\<close>, \<^verbatim>\<open>current_step\<close>, \<^verbatim>\<open>ids\<close>, \<^verbatim>\<open>vm_load_program\<close>, \<^verbatim>\<open>vm_enter_scope\<close> and
  \<^verbatim>\<open>vm_exit_scope\<close>, binds every static local to its static value, and binds \<^verbatim>\<open>PRIME\<close> to the
  prime of the program; \<^verbatim>\<open>memory\<close>, \<^verbatim>\<open>ap\<close>, \<^verbatim>\<open>fp\<close> and \<^verbatim>\<open>pc\<close> are bound to the validated memory
  and to the registers of the run context unless a static local has that name: the static
  locals are stored last and win.
\<close>

theorem hint_bindings:
  assumes "reachable h v"
    and "\<forall>c l w. hint_globals_ok w l \<longrightarrow> f c l w = exec_code h c l w"
  shows "step (h\<lparr>exec_code := f\<rparr>) v = step h v
       \<and> exec_scopes v \<noteq> []
       \<and> hint_globals_ok v (hint_globals v hint)
       \<and> list_all (\<lambda>name. map_of (hint_globals v hint) name \<noteq> None) hint_names
       \<and> (\<forall>name x. map_of (static_locals v) name = Some x \<longrightarrow>
            map_of (hint_globals v hint) name = Some x)
       \<and> map_of (hint_globals v hint) ''PRIME''
           = Some (Value (IntValue (program_prime (program v))))
       \<and> (map_of (static_locals v) ''memory'' = None \<longrightarrow>
            map_of (hint_globals v hint) ''memory'' = Some ValidatedMemoryRef)
       \<and> (map_of (static_locals v) ''ap'' = None \<longrightarrow>
            map_of (hint_globals v hint) ''ap'' = Some (Value (run_context.ap (run_context v))))
       \<and> (map_of (static_locals v) ''fp'' = None \<longrightarrow>
            map_of (hint_globals v hint) ''fp'' = Some (Value (run_context.fp (run_context v))))
       \<and> (map_of (static_locals v) ''pc'' = None \<longrightarrow>
            map_of (hint_globals v hint) ''pc'' = Some (Value (run_context.pc (run_context v))))"
proof -
  from assms(1) have ne: "exec_scopes v \<noteq> []" by (rule reachable_scopes)
  from assms(1) have d: "distinct (map fst (static_locals v))" by (rule reachable_static_distinct)
  from reachable_static [OF assms(1)]
  have pr: "map_of (static_locals v) ''PRIME''
              = Some (Value (IntValue (program_prime (program v))))" .
  let ?v0 = "v\<lparr>skip_instruction_execution := False\<rparr>"
  from d pr have d0: "distinct (map fst (static_locals ?v0))"
    and pr0: "map_of (static_locals ?v0) ''PRIME''
                = Some (Value (IntValue (program_prime (program ?v0))))"
    by simp_all
  have st: "step (h\<lparr>exec_code := f\<rparr>) v = step h v"
    by (auto simp: step_def Let_def run_hints_exec_agree [OF assms(2) d0 pr0]
        decode_and_run_exec split: sum.splits)
  from hint_globals_ok_holds [OF d pr, of hint "last (exec_scopes v)"]
  have ok: "hint_globals_ok v (hint_globals v hint)" by (simp add: hint_globals_def)
  have stat: "map_of (hint_globals v hint) name = Some x"
    if "map_of (static_locals v) name = Some x" for name x
    using that
    by (simp add: hint_globals_def exec_globals_keeps hint_exec_locals_lookup [OF d])
  from st ne ok stat show ?thesis
    by (simp add: hint_globals_ok_def)
qed

theorem hint_bindings_witness:
  "reachable example_host example_vm
   \<and> step (example_host\<lparr>exec_code := example_strict_exec\<rparr>) example_vm = Inr example_vm_skipped
   \<and> map_of (static_locals example_vm) ''pc'' = None
   \<and> map_of (hint_globals example_vm example_compiled0) ''pc''
        = Some (Value (RelocatableValue 0 0))
   \<and> map_of (hint_globals example_vm example_compiled0) ''PRIME'' = Some (Value (IntValue 17))
   \<and> map_of (hint_globals example_vm example_compiled0) ''fadd''
        = Some (FieldLambda ''fadd'' 17)"
proof -
  note r = example_vm_reachable
  have agree: "\<forall>c l w. hint_globals_ok w l \<longrightarrow>
                 example_strict_exec c l w = exec_code example_host c l w"
    by (simp add: hint_globals_ok_def hint_names_def example_strict_exec_def)
  have a: "map_of (static_locals example_vm) ''pc'' = None" by (simp add: example_defs)
  have b: "map_of (static_locals example_vm) ''fadd'' = Some (FieldLambda ''fadd'' 17)"
    by (simp add: example_defs)
  have c: "run_context.pc (run_context example_vm) = RelocatableValue 0 0"
    and d: "program_prime (program example_vm) = 17"
    by (simp_all add: example_defs)
  have s: "step example_host example_vm = Inr example_vm_skipped"
    by (simp add: step_def hint_body_def exec_hint_def exec_globals_def hint_exec_locals_def
        dict_delitem_def validated_memory_setitem_def validate_memory_cell_def
        memory_setitem_def call_consts_def Let_def example_defs)
  from hint_bindings [OF r agree, of example_compiled0] a b c d r s show ?thesis by simp
qed

text \<open>The claim as worded fails when the user's static locals define \<^verbatim>\<open>pc\<close>: the first hint of
  the program is then executed by \<^verbatim>\<open>step\<close> with \<^verbatim>\<open>pc\<close> bound to the static value \<open>0\<close>, which
  is what it stores at \<open>(1,0)\<close>, while the register is \<open>(0,0)\<close>. Without the static local the
  hint stores the register.\<close>

theorem hint_bindings_shadowed_counterexample:
  "vm_init example_probe_host (FullProgram example_program) example_initial_context
     [(''n'', Value (IntValue 3))] (Some [(''pc'', Value (IntValue 0))])
     [(''output_builtin'', Opaque 9)] (RelocatableValue 0 0)
     = Inr example_vm_shadowed
   \<and> map_of (vm.hints example_vm_shadowed) (run_context.pc (run_context example_vm_shadowed))
       = Some [example_compiled0, example_compiled1]
   \<and> run_context.pc (run_context example_vm_shadowed) = RelocatableValue 0 0
   \<and> map_of (hint_globals example_vm_shadowed example_compiled0) ''pc''
       = Some (Value (IntValue 0))
   \<and> map_of (hint_globals example_vm_shadowed example_compiled0) ''pc''
       \<noteq> Some (Value (run_context.pc (run_context example_vm_shadowed)))
   \<and> result_memory (step example_probe_host example_vm_shadowed)
       = Inr [(RelocatableValue 1 0, IntValue 0)]
   \<and> result_memory (step example_probe_host example_vm)
       = Inr [(RelocatableValue 1 0, RelocatableValue 0 0)]"
proof -
  have a: "vm_init example_probe_host (FullProgram example_program) example_initial_context
     [(''n'', Value (IntValue 3))] (Some [(''pc'', Value (IntValue 0))])
     [(''output_builtin'', Opaque 9)] (RelocatableValue 0 0)
     = Inr example_vm_shadowed"
    by (simp add: vm_init_def enter_scope_def load_program_def load_debug_info_def
        load_hints_def compile_hint_def Let_def example_defs)
  have b: "map_of (vm.hints example_vm_shadowed) (run_context.pc (run_context example_vm_shadowed))
       = Some [example_compiled0, example_compiled1]"
    by (simp add: example_vm_shadowed_def example_vm_with_def example_initial_context_def)
  have c: "run_context.pc (run_context example_vm_shadowed) = RelocatableValue 0 0"
    by (simp add: example_vm_shadowed_def example_vm_with_def example_initial_context_def)
  have d: "map_of (hint_globals example_vm_shadowed example_compiled0) ''pc''
       = Some (Value (IntValue 0))"
    by (simp add: hint_globals_def exec_globals_def hint_exec_locals_def Let_def
        example_vm_shadowed_def example_vm_with_def
        example_initial_context_def dict_update_def builtin_static_locals_def)
  have e: "result_memory (step example_probe_host example_vm_shadowed)
       = Inr [(RelocatableValue 1 0, IntValue 0)]"
    by (simp add: result_memory_def step_def hint_body_def exec_hint_def exec_globals_def
        hint_exec_locals_def dict_delitem_def validated_memory_setitem_def
        validate_memory_cell_def memory_setitem_def call_consts_def Let_def example_defs)
  have f: "result_memory (step example_probe_host example_vm)
       = Inr [(RelocatableValue 1 0, RelocatableValue 0 0)]"
    by (simp add: result_memory_def step_def hint_body_def exec_hint_def exec_globals_def
        hint_exec_locals_def dict_delitem_def validated_memory_setitem_def
        validate_memory_cell_def memory_setitem_def call_consts_def Let_def example_defs)
  from a b c d e f show ?thesis by simp
qed

end
